theory Spec2Isabelle
  imports Complex_Main "HOL-Library.Char_ord" "HOL-Library.Log_Nat"
begin

section \<open>JavaScript strings\<close>

text \<open>
  A JavaScript string is a sequence of code units. It is modelled as a \<^typ>\<open>string\<close>, so
  the model covers the code units below 256. The double quote is \<^term>\<open>CHR 0x22\<close>, the
  apostrophe \<^term>\<open>CHR 0x27\<close> and the line feed \<^term>\<open>CHR 0x0A\<close>.
\<close>

text \<open>\<^verbatim>\<open>String.prototype.trim\<close> removes white space and line terminators from both ends.
  Below 256 these are TAB, LF, VT, FF, CR, SPACE and NBSP.\<close>

definition isWhiteSpace :: "char \<Rightarrow> bool" where
  "isWhiteSpace c = (of_char c \<in> {9, 10, 11, 12, 13, 32, 160 :: nat})"

definition trim :: "string \<Rightarrow> string" where
  "trim s = rev (dropWhile isWhiteSpace (rev (dropWhile isWhiteSpace s)))"

text \<open>\<^verbatim>\<open>startsWith\<close>, \<^verbatim>\<open>endsWith\<close> and \<^verbatim>\<open>includes\<close>, which the source calls with
  one-character search strings only.\<close>

definition startsWith :: "string \<Rightarrow> char \<Rightarrow> bool" where
  "startsWith s c = (case s of [] \<Rightarrow> False | x # _ \<Rightarrow> x = c)"

definition endsWith :: "string \<Rightarrow> char \<Rightarrow> bool" where
  "endsWith s c = (case rev s of [] \<Rightarrow> False | x # _ \<Rightarrow> x = c)"

definition includes_char :: "string \<Rightarrow> char \<Rightarrow> bool" where
  "includes_char s c = (c \<in> set s)"

text \<open>\<^verbatim>\<open>s.split(d)\<close> for a one-character separator: the empty string gives one empty
  piece, and a trailing separator gives a trailing empty piece.\<close>

fun split_from :: "char \<Rightarrow> string \<Rightarrow> string \<Rightarrow> string list" where
  "split_from d cur [] = [cur]"
| "split_from d cur (c # cs) =
     (if c = d then cur # split_from d [] cs else split_from d (cur @ [c]) cs)"

definition split :: "char \<Rightarrow> string \<Rightarrow> string list" where
  "split d s = split_from d [] s"

text \<open>\<^verbatim>\<open>xs.join(sep)\<close>.\<close>

fun join :: "string \<Rightarrow> string list \<Rightarrow> string" where
  "join sep [] = []"
| "join sep [x] = x"
| "join sep (x # y # ys) = x @ sep @ join sep (y # ys)"

section \<open>The CSV line parser\<close>

text \<open>
  \<^verbatim>\<open>parseCsvLine\<close> of \<^verbatim>\<open>FormBulkSubmitTool.ts\<close>. The loop over the index \<^verbatim>\<open>i\<close> becomes a
  recursion over the characters still to read; the look-ahead \<^verbatim>\<open>line[i + 1]\<close> is the head
  of the rest, and \<^verbatim>\<open>i++\<close> in the escaped-quote branch drops it. The loop state is
  \<^verbatim>\<open>result\<close>, \<^verbatim>\<open>current\<close> and \<^verbatim>\<open>inQuotes\<close>.
\<close>

fun parseCsvLine_loop :: "string \<Rightarrow> string list \<Rightarrow> string \<Rightarrow> bool \<Rightarrow> string list" where
  "parseCsvLine_loop [] result current inQuotes = result @ [current]"
| "parseCsvLine_loop (c # rest) result current inQuotes =
     (if c = CHR 0x22 then
        (case rest of
           [] \<Rightarrow> parseCsvLine_loop rest result current (\<not> inQuotes)
         | d # rest' \<Rightarrow>
             if inQuotes \<and> d = CHR 0x22
             then parseCsvLine_loop rest' result (current @ [CHR 0x22]) inQuotes
             else parseCsvLine_loop rest result current (\<not> inQuotes))
      else if c = CHR '','' \<and> \<not> inQuotes
        then parseCsvLine_loop rest (result @ [current]) [] inQuotes
      else parseCsvLine_loop rest result (current @ [c]) inQuotes)"

definition parseCsvLine :: "string \<Rightarrow> string list" where
  "parseCsvLine line = parseCsvLine_loop line [] [] False"

section \<open>Input validation\<close>

text \<open>
  \<^verbatim>\<open>InputValidator.sanitizeHtml\<close> of \<^verbatim>\<open>validation.ts\<close>. Its two regular expressions are
  \<^verbatim>\<open>/<script[^>]*>.*?<\/script>/gi\<close> and \<^verbatim>\<open>/<[^>]*>/g\<close>. Each has at most one way to
  match at a given position, so a global replace is a scan from the left that cuts a match
  out where there is one and keeps the character otherwise.
\<close>

text \<open>A character of the input against a pattern character under the \<^verbatim>\<open>i\<close> flag.\<close>

definition eq_ci :: "char \<Rightarrow> char \<Rightarrow> bool" where
  "eq_ci c p =
     (c = p \<or> (CHR ''a'' \<le> p \<and> p \<le> CHR ''z'' \<and> (of_char c :: nat) + 32 = of_char p))"

text \<open>A literal pattern at the head of the input; the result is the input after it.\<close>

fun match_ci :: "string \<Rightarrow> string \<Rightarrow> string option" where
  "match_ci [] s = Some s"
| "match_ci (p # ps) [] = None"
| "match_ci (p # ps) (c # cs) = (if eq_ci c p then match_ci ps cs else None)"

text \<open>\<^verbatim>\<open>[^>]*>\<close>: up to and including the first \<^verbatim>\<open>>\<close>.\<close>

fun after_gt :: "string \<Rightarrow> string option" where
  "after_gt [] = None"
| "after_gt (c # cs) = (if c = CHR ''>'' then Some cs else after_gt cs)"

text \<open>The dot of a regular expression matches no line terminator (LF and CR below 256).\<close>

definition isLineTerminator :: "char \<Rightarrow> bool" where
  "isLineTerminator c = (of_char c \<in> {10, 13 :: nat})"

text \<open>\<^verbatim>\<open>.*?<\/script>\<close>: the lazy star tries the closing tag first and takes one more
  character only when that fails.\<close>

fun lazy_to_close :: "string \<Rightarrow> string option" where
  "lazy_to_close [] = None"
| "lazy_to_close (c # cs) =
     (case match_ci ''</script>'' (c # cs) of
        Some rest \<Rightarrow> Some rest
      | None \<Rightarrow> if isLineTerminator c then None else lazy_to_close cs)"

definition match_script :: "string \<Rightarrow> string option" where
  "match_script s =
     (case match_ci ''<script'' s of
        None \<Rightarrow> None
      | Some r1 \<Rightarrow> (case after_gt r1 of None \<Rightarrow> None | Some r2 \<Rightarrow> lazy_to_close r2))"

lemma match_ci_length: "match_ci ps s = Some rest \<Longrightarrow> length rest + length ps = length s"
  by (induction ps s rule: match_ci.induct) (auto split: if_splits)

lemma after_gt_length: "after_gt s = Some rest \<Longrightarrow> length rest < length s"
  by (induction s) (auto split: if_splits)

lemma lazy_to_close_length: "lazy_to_close s = Some rest \<Longrightarrow> length rest < length s"
proof (induction s)
  case Nil
  then show ?case by simp
next
  case (Cons c cs)
  show ?case
  proof (cases "match_ci ''</script>'' (c # cs)")
    case None
    with Cons show ?thesis by (auto split: if_splits)
  next
    case (Some r)
    with Cons.prems have "rest = r" by simp
    with Some show ?thesis using match_ci_length by fastforce
  qed
qed

lemma match_script_length: "match_script s = Some rest \<Longrightarrow> length rest < length s"
  unfolding match_script_def
  by (auto split: option.splits
      dest!: match_ci_length after_gt_length lazy_to_close_length)

function remove_scripts :: "string \<Rightarrow> string" where
  "remove_scripts [] = []"
| "remove_scripts (c # cs) =
     (case match_script (c # cs) of
        Some rest \<Rightarrow> remove_scripts rest
      | None \<Rightarrow> c # remove_scripts cs)"
  by pat_completeness auto
termination
  by (relation "measure length") (auto dest: match_script_length)

function remove_tags :: "string \<Rightarrow> string" where
  "remove_tags [] = []"
| "remove_tags (c # cs) =
     (if c = CHR ''<'' then
        (case after_gt cs of
           Some rest \<Rightarrow> remove_tags rest
         | None \<Rightarrow> c # remove_tags cs)
      else c # remove_tags cs)"
  by pat_completeness auto
termination
  by (relation "measure length") (auto dest: after_gt_length)

text \<open>\<^verbatim>\<open>s.replace(/c/g, r)\<close> for one character \<^verbatim>\<open>c\<close> and a replacement without \<^verbatim>\<open>$\<close>.\<close>

definition replace_all_char :: "char \<Rightarrow> string \<Rightarrow> string \<Rightarrow> string" where
  "replace_all_char c r s = concat (map (\<lambda>x. if x = c then r else [x]) s)"

definition sanitizeHtml :: "string \<Rightarrow> string" where
  "sanitizeHtml input =
     (if input = [] then []
      else replace_all_char CHR ''/'' ''&#x2F;''
          (replace_all_char (CHR 0x27) ''&#x27;''
          (replace_all_char (CHR 0x22) ''&quot;''
          (replace_all_char CHR ''>'' ''&gt;''
          (replace_all_char CHR ''<'' ''&lt;''
          (replace_all_char CHR ''&'' ''&amp;''
          (remove_tags (remove_scripts input))))))))"

record ValidationResult =
  isValid :: bool
  errors :: "string list"
  sanitizedValue :: "string option"

definition dangerousPrefix :: "string \<Rightarrow> bool" where
  "dangerousPrefix s =
     (startsWith s CHR ''='' \<or> startsWith s CHR ''@'' \<or> startsWith s CHR ''+'' \<or>
      startsWith s CHR ''-'')"

text \<open>\<^verbatim>\<open>replace(/^"/, '')\<close> and \<^verbatim>\<open>replace(/"$/, '')\<close>.\<close>

definition strip_leading_quote :: "string \<Rightarrow> string" where
  "strip_leading_quote s = (if startsWith s (CHR 0x22) then tl s else s)"

definition strip_trailing_quote :: "string \<Rightarrow> string" where
  "strip_trailing_quote s = (if endsWith s (CHR 0x22) then butlast s else s)"

text \<open>The test inside \<^verbatim>\<open>dangerousCells\<close>, for one cell and for all lines.\<close>

definition dangerousCell :: "string \<Rightarrow> bool" where
  "dangerousCell cell =
     dangerousPrefix (strip_trailing_quote (strip_leading_quote (trim cell)))"

definition dangerousCells :: "string list \<Rightarrow> bool" where
  "dangerousCells lines =
     list_ex (\<lambda>line. list_ex dangerousCell (split CHR '','' line)) lines"

text \<open>The body of \<^verbatim>\<open>sanitizedCells\<close>. \<^verbatim>\<open>slice(1, -1)\<close> drops the first and the last
  character (and gives the empty string on a one-character cell).\<close>

definition sanitizeCell :: "string \<Rightarrow> string" where
  "sanitizeCell cell =
     (let c0 = trim cell;
          c1 = (if startsWith c0 (CHR 0x22) \<and> endsWith c0 (CHR 0x22)
                then butlast (tl c0) else c0);
          c2 = (if dangerousPrefix c1 then CHR 0x27 # c1 else c1);
          c3 = sanitizeHtml c2
      in if includes_char c3 CHR '','' \<or> includes_char c3 (CHR 0x22) \<or>
            includes_char c3 (CHR 0x0A)
         then CHR 0x22 # replace_all_char (CHR 0x22) [CHR 0x22, CHR 0x22] c3 @ [CHR 0x22]
         else c3)"

definition validateCsvData :: "string \<Rightarrow> ValidationResult" where
  "validateCsvData csvData =
     (if csvData = [] then
        \<lparr>isValid = False, errors = [''CSV data is required''], sanitizedValue = None\<rparr>
      else
        let trimmedData = trim csvData in
        if length trimmedData = 0 then
          \<lparr>isValid = False, errors = [''CSV data cannot be empty''], sanitizedValue = None\<rparr>
        else
          let errors1 = (if int (length trimmedData) > 10 * 1024 * 1024
                         then [''CSV data is too large''] else []);
              lines = split (CHR 0x0A) trimmedData;
              errors2 = errors1 @
                (if length lines < 2
                 then [''CSV must contain at least a header row and one data row'']
                 else []);
              errors3 = errors2 @
                (if dangerousCells lines
                 then [''CSV contains potentially dangerous formulas''] else []);
              sanitizedLines =
                map (\<lambda>line. join '','' (map sanitizeCell (split CHR '','' line))) lines
          in \<lparr>isValid = (length errors3 = 0), errors = errors3,
              sanitizedValue = Some (join [CHR 0x0A] sanitizedLines)\<rparr>)"

section \<open>Rows as JavaScript objects\<close>

text \<open>
  A row is a \<^verbatim>\<open>Record<string, string>\<close>. It is modelled as the list of its own
  properties in the order \<^verbatim>\<open>Object.keys\<close> and \<^verbatim>\<open>Object.entries\<close> give them: array-index
  keys first, in ascending numeric order, then the other keys in insertion order.
\<close>

type_synonym row = "(string \<times> string) list"

definition isDigit :: "char \<Rightarrow> bool" where
  "isDigit c = (CHR ''0'' \<le> c \<and> c \<le> CHR ''9'')"

definition int_of_digits :: "string \<Rightarrow> int" where
  "int_of_digits s = foldl (\<lambda>n c. 10 * n + (of_char c - 48)) 0 s"

text \<open>An array index is the canonical decimal form of an integer below \<open>2\<^sup>3\<^sup>2 - 1\<close>.\<close>

definition arrayIndex :: "string \<Rightarrow> int option" where
  "arrayIndex k =
     (if k \<noteq> [] \<and> list_all isDigit k \<and> (k = ''0'' \<or> hd k \<noteq> CHR ''0'') \<and>
         int_of_digits k < 4294967295
      then Some (int_of_digits k) else None)"

fun insert_index :: "int \<Rightarrow> string \<Rightarrow> string \<Rightarrow> row \<Rightarrow> row" where
  "insert_index n k v [] = [(k, v)]"
| "insert_index n k v ((k', v') # r) =
     (case arrayIndex k' of
        Some m \<Rightarrow> if m < n then (k', v') # insert_index n k v r else (k, v) # (k', v') # r
      | None \<Rightarrow> (k, v) # (k', v') # r)"

text \<open>\<^verbatim>\<open>row[k] = v\<close> on an object made by \<^verbatim>\<open>{}\<close>. Assigning a string to \<^verbatim>\<open>__proto__\<close>
  goes to the setter of \<^verbatim>\<open>Object.prototype\<close>, which ignores it.\<close>

definition obj_set :: "row \<Rightarrow> string \<Rightarrow> string \<Rightarrow> row" where
  "obj_set r k v =
     (if k = ''__proto__'' then r
      else if map_of r k \<noteq> None then map (\<lambda>(k', v'). if k' = k then (k', v) else (k', v')) r
      else (case arrayIndex k of Some n \<Rightarrow> insert_index n k v r | None \<Rightarrow> r @ [(k, v)]))"

section \<open>CSV ingestion\<close>

text \<open>A thrown JavaScript error: its name and its message.\<close>

datatype js_error = JsError string string

text \<open>The inner loop of \<^verbatim>\<open>parseCsvData\<close> over the header positions \<^verbatim>\<open>j\<close>;
  \<^verbatim>\<open>values[j] || ''\<close> is the empty string past the end of \<^verbatim>\<open>values\<close>.\<close>

definition build_row :: "string list \<Rightarrow> string list \<Rightarrow> row" where
  "build_row headers values =
     fold (\<lambda>j row.
            let value = (if j < length values then values ! j else [])
            in if trim value \<noteq> []
               then obj_set row (headers ! j) (sanitizeHtml (trim value))
               else row)
          [0..<length headers] []"

text \<open>The outer loop over the data lines \<^verbatim>\<open>lines[1]\<close>, \<^verbatim>\<open>lines[2]\<close>, ...\<close>

fun parse_data_lines :: "string list \<Rightarrow> string list \<Rightarrow> row list \<Rightarrow> row list" where
  "parse_data_lines headers [] rows = rows"
| "parse_data_lines headers (line # later) rows =
     (let lineData = trim line in
      if lineData = [] then parse_data_lines headers later rows
      else
        let row = build_row headers (parseCsvLine lineData) in
        if length row > 0 then parse_data_lines headers later (rows @ [row])
        else parse_data_lines headers later rows)"

definition parseCsvData :: "string \<Rightarrow> js_error + row list" where
  "parseCsvData csvData =
     (if trim csvData = [] then Inl (JsError ''Error'' ''CSV data is empty'')
      else
        let csvValidation = validateCsvData csvData in
        if \<not> isValid csvValidation then
          Inl (JsError ''Error''
                (''CSV validation failed: '' @ join '', '' (errors csvValidation)))
        else
          (case sanitizedValue csvValidation of
             None \<Rightarrow>
               Inl (JsError ''TypeError'' ''Cannot read properties of undefined'')
           | Some sanitizedCsvData \<Rightarrow>
               let lines = split (CHR 0x0A) (trim sanitizedCsvData) in
               if length lines < 2 then
                 Inl (JsError ''Error''
                       ''CSV must have at least a header row and one data row'')
               else
                 let headers = parseCsvLine (hd lines) in
                 if length headers = 0 then
                   Inl (JsError ''Error'' ''CSV must have column headers'')
                 else Inr (parse_data_lines headers (tl lines) [])))"

section \<open>Building the request\<close>

text \<open>
  \<^verbatim>\<open>s.replace(pattern, replacement)\<close> with a string pattern replaces the first occurrence.
  The replacement is not taken literally: \<^verbatim>\<open>$$\<close> stands for a dollar sign, \<^verbatim>\<open>$&\<close> for the
  matched text, \<^verbatim>\<open>$`\<close> for the text before the match and \<^verbatim>\<open>$'\<close> for the text after it.
\<close>

fun find_first :: "string \<Rightarrow> string \<Rightarrow> string \<Rightarrow> (string \<times> string) option" where
  "find_first pat front [] = (if pat = [] then Some (front, []) else None)"
| "find_first pat front (c # cs) =
     (if take (length pat) (c # cs) = pat then Some (front, drop (length pat) (c # cs))
      else find_first pat (front @ [c]) cs)"

fun getSubstitution :: "string \<Rightarrow> string \<Rightarrow> string \<Rightarrow> string \<Rightarrow> string" where
  "getSubstitution matched front back (c # d # r) =
     (if c = CHR ''$'' then
        (if d = CHR ''$'' then CHR ''$'' # getSubstitution matched front back r
         else if d = CHR ''&'' then matched @ getSubstitution matched front back r
         else if d = CHR 0x60 then front @ getSubstitution matched front back r
         else if d = CHR 0x27 then back @ getSubstitution matched front back r
         else c # getSubstitution matched front back (d # r))
      else c # getSubstitution matched front back (d # r))"
| "getSubstitution matched front back s = s"

definition replace_first :: "string \<Rightarrow> string \<Rightarrow> string \<Rightarrow> string" where
  "replace_first s pat replacement =
     (case find_first pat [] s of
        None \<Rightarrow> s
      | Some (front, back) \<Rightarrow> front @ getSubstitution pat front back replacement @ back)"

text \<open>
  \<^verbatim>\<open>URLSearchParams\<close> is a list of name/value pairs, and \<^verbatim>\<open>toString()\<close> is the
  \<^verbatim>\<open>application/x-www-form-urlencoded\<close> serializer: a space becomes \<^verbatim>\<open>+\<close>, ASCII letters,
  digits and \<^verbatim>\<open>*-._\<close> stay, and every other character is percent-encoded byte by byte
  in UTF-8 (two bytes for the code units from 128 to 255).
\<close>

definition urlencoded_keep :: "char \<Rightarrow> bool" where
  "urlencoded_keep c =
     ((CHR ''a'' \<le> c \<and> c \<le> CHR ''z'') \<or> (CHR ''A'' \<le> c \<and> c \<le> CHR ''Z'') \<or>
      (CHR ''0'' \<le> c \<and> c \<le> CHR ''9'') \<or>
      c = CHR ''*'' \<or> c = CHR ''-'' \<or> c = CHR ''.'' \<or> c = CHR ''_'')"

definition hex_digit :: "nat \<Rightarrow> char" where
  "hex_digit n = ''0123456789ABCDEF'' ! (n mod 16)"

definition percent_byte :: "nat \<Rightarrow> string" where
  "percent_byte b = [CHR ''%'', hex_digit (b div 16), hex_digit b]"

definition utf8_bytes :: "char \<Rightarrow> nat list" where
  "utf8_bytes c =
     (let n = of_char c in if n < 128 then [n] else [192 + n div 64, 128 + n mod 64])"

definition urlencode_char :: "char \<Rightarrow> string" where
  "urlencode_char c =
     (if c = CHR '' '' then ''+''
      else if urlencoded_keep c then [c]
      else concat (map percent_byte (utf8_bytes c)))"

definition urlencode :: "string \<Rightarrow> string" where
  "urlencode s = concat (map urlencode_char s)"

definition urlencode_pair :: "string \<times> string \<Rightarrow> string" where
  "urlencode_pair p = urlencode (fst p) @ ''='' @ urlencode (snd p)"

definition params_toString :: "(string \<times> string) list \<Rightarrow> string" where
  "params_toString params = join ''&'' (map urlencode_pair params)"

definition ELOQUA_BASE_URL :: string where
  "ELOQUA_BASE_URL = ''https://s{siteId}.t.eloqua.com/e/f2''"

text \<open>\<^verbatim>\<open>buildEloquaUrl\<close>; the parameter \<^verbatim>\<open>rowNumber\<close> is unused in the source as well.\<close>

definition buildEloquaUrl :: "string \<Rightarrow> string \<Rightarrow> row \<Rightarrow> nat \<Rightarrow> string" where
  "buildEloquaUrl siteId elqFormName csvData rowNumber =
     (let baseUrl = replace_first ELOQUA_BASE_URL ''{siteId}'' siteId;
          params = [(''elqFormName'', elqFormName), (''elqSiteID'', siteId)] @ csvData
      in baseUrl @ ''?'' @ params_toString params)"

section \<open>Numbers\<close>

text \<open>
  A JavaScript number is an IEEE 754 double. A finite double is modelled by the rational it
  denotes, next to the three values that are not finite; signed zeros are not told apart.
  Every arithmetic operation gives the exact result rounded to the nearest double, a tie
  going to the even significand.
\<close>

datatype number = Num rat | PosInfinity | NegInfinity | NaN

text \<open>The binary exponent \<open>e\<close> of a rational \<open>x\<close> other than zero: \<open>\<bar>x\<bar>\<close> is at least 2 to the
  power \<open>e\<close> and less than 2 to the power \<open>e + 1\<close>.\<close>

definition exponent :: "rat \<Rightarrow> int" where
  "exponent x =
     (let a = fst (quotient_of \<bar>x\<bar>); b = snd (quotient_of \<bar>x\<bar>);
          d = bitlen a - bitlen b
      in if power_int 2 d \<le> \<bar>x\<bar> then d else d - 1)"

definition round_ties_even :: "rat \<Rightarrow> int" where
  "round_ties_even q =
     (let f = \<lfloor>q\<rfloor>; r = q - of_int f
      in if r < 1 / 2 then f else if 1 / 2 < r then f + 1
         else if even f then f else f + 1)"

text \<open>
  Rounding to 53 significant bits: the result is a multiple of the unit in the last place,
  which is 2 to the power \<open>e - 52\<close> for a number of exponent \<open>e\<close>, and 2 to the power
  \<open>- 1074\<close> in the subnormal range. A result of magnitude 2 to the power 1024 or more
  overflows to an infinity.
\<close>

definition fround :: "rat \<Rightarrow> rat" where
  "fround x =
     (if x = 0 then 0
      else let u = power_int 2 (max (exponent x) (- 1022) - 52)
           in of_int (round_ties_even (x / u)) * u)"

definition to_double :: "rat \<Rightarrow> number" where
  "to_double x =
     (let y = fround x
      in if power_int 2 1024 \<le> \<bar>y\<bar> then (if 0 < y then PosInfinity else NegInfinity)
         else Num y)"

text \<open>The operators \<^verbatim>\<open>/\<close>, \<^verbatim>\<open>*\<close> and \<^verbatim>\<open>+\<close> on numbers.\<close>

fun num_div :: "number \<Rightarrow> number \<Rightarrow> number" where
  "num_div NaN _ = NaN"
| "num_div _ NaN = NaN"
| "num_div (Num a) (Num b) =
     (if b \<noteq> 0 then to_double (a / b)
      else if a = 0 then NaN else if a > 0 then PosInfinity else NegInfinity)"
| "num_div (Num a) _ = Num 0"
| "num_div PosInfinity (Num b) = (if b \<ge> 0 then PosInfinity else NegInfinity)"
| "num_div NegInfinity (Num b) = (if b \<ge> 0 then NegInfinity else PosInfinity)"
| "num_div _ _ = NaN"

fun num_mult :: "number \<Rightarrow> number \<Rightarrow> number" where
  "num_mult (Num a) (Num b) = to_double (a * b)"
| "num_mult NaN _ = NaN"
| "num_mult _ NaN = NaN"
| "num_mult (Num a) PosInfinity =
     (if a = 0 then NaN else if a > 0 then PosInfinity else NegInfinity)"
| "num_mult (Num a) NegInfinity =
     (if a = 0 then NaN else if a > 0 then NegInfinity else PosInfinity)"
| "num_mult PosInfinity (Num b) =
     (if b = 0 then NaN else if b > 0 then PosInfinity else NegInfinity)"
| "num_mult NegInfinity (Num b) =
     (if b = 0 then NaN else if b > 0 then NegInfinity else PosInfinity)"
| "num_mult PosInfinity PosInfinity = PosInfinity"
| "num_mult NegInfinity NegInfinity = PosInfinity"
| "num_mult _ _ = NegInfinity"

fun num_plus :: "number \<Rightarrow> number \<Rightarrow> number" where
  "num_plus (Num a) (Num b) = to_double (a + b)"
| "num_plus NaN _ = NaN"
| "num_plus _ NaN = NaN"
| "num_plus PosInfinity NegInfinity = NaN"
| "num_plus NegInfinity PosInfinity = NaN"
| "num_plus PosInfinity _ = PosInfinity"
| "num_plus NegInfinity _ = NegInfinity"
| "num_plus (Num a) n = n"

text \<open>\<^verbatim>\<open>Math.round\<close> rounds to the nearest integer, a half towards \<open>+\<infinity>\<close>; the result
  is exact.\<close>

definition round_half_up :: "rat \<Rightarrow> int" where
  "round_half_up x = \<lfloor>x + 1 / 2\<rfloor>"

fun Math_round :: "number \<Rightarrow> number" where
  "Math_round (Num x) = Num (of_int (round_half_up x))"
| "Math_round n = n"

text \<open>A count or an integer as a number.\<close>

definition num_of_nat :: "nat \<Rightarrow> number" where
  "num_of_nat n = to_double (of_nat n)"

definition num_of_int :: "int \<Rightarrow> number" where
  "num_of_int n = to_double (of_int n)"

section \<open>The network and the scheduler\<close>

text \<open>
  What lies outside the program is a parameter of the model. A \<open>reply\<close> says how the
  remote end answers one request: whether the \<^verbatim>\<open>fetch\<close> promise settles by itself
  (rejected with a thrown value, or resolved with a status and a body), after how many
  milliseconds, and how long the body takes to read. Reading the body gives a text, fails,
  or never ends (the remote end stops sending and keeps the connection open). A \<open>world\<close>
  gives the reply to the request of each row, and for the batch that starts at a row index
  the order in which the promises of that batch settle (positions in the batch).
  The log of a run records the requests sent and the delays the orchestrator waits for;
  progress messages are not modelled.
\<close>

record request =
  req_url :: string
  req_method :: string
  req_headers :: "(string \<times> string) list"
  req_body :: string

datatype thrown = ErrorObject string string | NotAnError

datatype body_read = BodyText string | BodyFails thrown | BodyNever

datatype settlement = Rejects thrown | Responds nat body_read

record reply =
  settles :: "settlement option"
  fetch_ms :: rat
  body_ms :: rat

datatype event = Fetch request | Delay int

record world =
  transport :: "nat \<Rightarrow> request \<Rightarrow> reply"
  completion :: "nat \<Rightarrow> nat list"

text \<open>
  \<^verbatim>\<open>fetch\<close> with the signal of an \<^verbatim>\<open>AbortController\<close> that a timer aborts after
  \<open>timeout_ms\<close>: a reply that has not settled by then is rejected with an \<^verbatim>\<open>AbortError\<close>.
  The result is the time the promise took and how it settled.
\<close>

definition abortError :: thrown where
  "abortError = ErrorObject ''AbortError'' ''The user aborted a request.''"

definition fetch_with_abort :: "reply \<Rightarrow> rat \<Rightarrow> rat \<times> settlement" where
  "fetch_with_abort r timeout_ms =
     (case settles r of
        None \<Rightarrow> (max 0 timeout_ms, Rejects abortError)
      | Some s \<Rightarrow>
          if fetch_ms r < timeout_ms then (fetch_ms r, s)
          else (max 0 timeout_ms, Rejects abortError))"

section \<open>Submitting one row\<close>

record ProcessedRow =
  rowNumber :: nat
  success :: bool
  statusCode :: "nat option"
  processingTime :: int
  url :: "string option"
  parametersCount :: nat
  responseSize :: "nat option"
  error :: "string option"
  data :: "row option"

text \<open>The arguments of the \<^verbatim>\<open>fetch\<close> call in \<^verbatim>\<open>processRow\<close>.\<close>

definition row_request :: "string \<Rightarrow> string \<Rightarrow> row \<Rightarrow> nat \<Rightarrow> request" where
  "row_request site form rowData rowNo =
     \<lparr>req_url = buildEloquaUrl site form rowData rowNo,
      req_method = ''POST'',
      req_headers = [(''Content-Type'', ''application/x-www-form-urlencoded''),
                     (''User-Agent'', ''EloquaAdminToolbox-BulkSubmit/1.0'')],
      req_body = params_toString rowData\<rparr>"

text \<open>The message chosen in the \<^verbatim>\<open>catch\<close> block.\<close>

definition errorMessage :: "thrown \<Rightarrow> string" where
  "errorMessage e =
     (case e of
        ErrorObject name msg \<Rightarrow>
          if name = ''AbortError'' then ''Request timeout'' else ''Network error: '' @ msg
      | NotAnError \<Rightarrow> ''Unknown error'')"

text \<open>The object returned from the \<^verbatim>\<open>catch\<close> block.\<close>

definition failedRow :: "nat \<Rightarrow> row \<Rightarrow> rat \<Rightarrow> thrown \<Rightarrow> ProcessedRow" where
  "failedRow rowNo rowData elapsed e =
     \<lparr>rowNumber = rowNo, success = False, statusCode = None,
      processingTime = round_half_up elapsed, url = None,
      parametersCount = length rowData, responseSize = None,
      error = Some (errorMessage e), data = Some rowData\<rparr>"

text \<open>
  \<^verbatim>\<open>processRow\<close>. The timer is cleared as soon as \<^verbatim>\<open>fetch\<close> has resolved, before the body
  is read, so the timeout bounds the time until the response arrives and not the reading
  of its body: \<^verbatim>\<open>await response.text()\<close> waits as long as the body takes, and forever when
  the body never ends. The elapsed time is read after \<^verbatim>\<open>fetch\<close> has resolved and before
  the body is read; in the \<^verbatim>\<open>catch\<close> block it is read when the error arrives. The result
  is the log of the call and the row it returns, \<open>None\<close> when it never returns.
\<close>

definition processRow ::
  "world \<Rightarrow> row \<Rightarrow> string \<Rightarrow> string \<Rightarrow> nat \<Rightarrow> int \<Rightarrow> event list \<times> ProcessedRow option" where
  "processRow w rowData site form rowNo timeout =
     (let targetUrl = buildEloquaUrl site form rowData rowNo;
          req = row_request site form rowData rowNo;
          r = transport w rowNo req;
          settled = fetch_with_abort r (of_int timeout * 1000)
      in ([Fetch req],
          case snd settled of
            Responds status (BodyText responseText) \<Rightarrow>
              Some \<lparr>rowNumber = rowNo, success = True, statusCode = Some status,
                    processingTime = round_half_up (fst settled), url = Some targetUrl,
                    parametersCount = length rowData,
                    responseSize = Some (length responseText),
                    error = None, data = Some rowData\<rparr>
          | Responds status (BodyFails e) \<Rightarrow>
              Some (failedRow rowNo rowData (fst settled + body_ms r) e)
          | Responds status BodyNever \<Rightarrow> None
          | Rejects e \<Rightarrow> Some (failedRow rowNo rowData (fst settled) e)))"

section \<open>The orchestrator\<close>

text \<open>
  A JavaScript array that may have holes is a list of options. \<^verbatim>\<open>xs[i] = v\<close> replaces
  an element in range and extends the array, with holes, out of range.
\<close>

definition array_set :: "'a option list \<Rightarrow> nat \<Rightarrow> 'a \<Rightarrow> 'a option list" where
  "array_set xs i v =
     (if i < length xs then xs[i := Some v]
      else xs @ replicate (i - length xs) None @ [Some v])"

text \<open>
  \<^verbatim>\<open>Promise.allSettled\<close>. A promise is the way it settles, or \<open>None\<close> when it stays
  pending forever. Each promise, when it settles, fills the slot of its own position;
  \<open>order\<close> lists the positions in the order of settling. The combined promise resolves
  with the slots once all are filled, and never when one stays empty (\<open>None\<close>).
\<close>

datatype 'a settled = Fulfilled 'a | Rejected string

definition allSettled :: "'a settled option list \<Rightarrow> nat list \<Rightarrow> 'a settled list option" where
  "allSettled promises order =
     those (fold (\<lambda>k slots. if k < length slots then slots[k := promises ! k] else slots)
              order (replicate (length promises) None))"

record options =
  requestTimeout :: int
  delayBetweenRequests :: int
  maxConcurrentRequests :: int

text \<open>The object stored when a promise of the batch is rejected.\<close>

definition rejectedRow :: "nat \<Rightarrow> row \<Rightarrow> string \<Rightarrow> ProcessedRow" where
  "rejectedRow rowIndex rowData reason =
     \<lparr>rowNumber = rowIndex + 1, success = False, statusCode = None,
      processingTime = 0, url = None,
      parametersCount = length rowData, responseSize = None,
      error = Some (''Promise rejected: '' @ reason), data = None\<rparr>"

text \<open>
  \<^verbatim>\<open>processBatch\<close>: \<^verbatim>\<open>batch.map\<close> calls \<^verbatim>\<open>processRow\<close> for each element in turn, and each
  call runs up to its \<^verbatim>\<open>fetch\<close> before the next one starts; then the batch is awaited and
  the results are stored in batch order. An async function that returns gives a fulfilled
  promise, and one that never returns a promise that stays pending.
\<close>

definition processBatch ::
  "world \<Rightarrow> string \<Rightarrow> string \<Rightarrow> int \<Rightarrow> (row \<times> nat) list \<Rightarrow> ProcessedRow option list \<Rightarrow>
   (ProcessedRow option list \<times> event list) option" where
  "processBatch w site form timeout batch results =
     (let calls = map (\<lambda>(row, index). processRow w row site form (index + 1) timeout) batch;
          batchPromises = map (\<lambda>call. map_option Fulfilled (snd call)) calls;
          order = (case batch of [] \<Rightarrow> [] | (_, first) # _ \<Rightarrow> completion w first)
      in case allSettled batchPromises order of
           None \<Rightarrow> None
         | Some batchResults \<Rightarrow>
             Some (fold (\<lambda>(result, batchIndex) res.
                          let rowIndex = snd (batch ! batchIndex) in
                          case result of
                            Fulfilled v \<Rightarrow> array_set res rowIndex v
                          | Rejected reason \<Rightarrow>
                              array_set res rowIndex
                                (rejectedRow rowIndex (fst (batch ! batchIndex)) reason))
                     (zip batchResults [0..<length batchResults]) results,
                   concat (map fst calls)))"

text \<open>
  The \<^verbatim>\<open>for\<close> loop of \<^verbatim>\<open>processBulkSubmissions\<close> from the index \<open>i\<close> on. With a step
  of zero it never ends, so the loop is a partial function: \<open>None\<close> means that it does not
  return.
\<close>

partial_function (option) batch_loop ::
  "world \<Rightarrow> row list \<Rightarrow> string \<Rightarrow> string \<Rightarrow> options \<Rightarrow> nat \<Rightarrow> ProcessedRow option list \<Rightarrow>
   event list \<Rightarrow> (ProcessedRow option list \<times> event list) option" where
  "batch_loop w csvRows site form opts i results trace =
     (if i < length csvRows then
        (let m = nat (maxConcurrentRequests opts);
             slice = take m (drop i csvRows);
             batch = map (\<lambda>(row, batchIndex). (row, i + batchIndex))
                       (zip slice [0..<length slice])
         in case processBatch w site form (requestTimeout opts) batch results of
              None \<Rightarrow> None
            | Some (results', events) \<Rightarrow>
                batch_loop w csvRows site form opts (i + m) results'
                  (trace @ events @
                   (if delayBetweenRequests opts > 0 \<and> i + m < length csvRows
                    then [Delay (delayBetweenRequests opts)] else [])))
      else Some (results, trace))"

declare batch_loop.simps [code]

text \<open>\<^verbatim>\<open>processBulkSubmissions\<close>. \<^verbatim>\<open>new Array(n)\<close> throws a \<^verbatim>\<open>RangeError\<close> unless \<open>n\<close> is
  an integer from 0 to \<open>2\<^sup>3\<^sup>2 - 1\<close>.\<close>

definition processBulkSubmissions ::
  "world \<Rightarrow> row list \<Rightarrow> string \<Rightarrow> string \<Rightarrow> options \<Rightarrow>
   (js_error + ProcessedRow option list \<times> event list) option" where
  "processBulkSubmissions w csvRows site form opts =
     (if maxConcurrentRequests opts < 0 \<or> maxConcurrentRequests opts > 4294967295
      then Some (Inl (JsError ''RangeError'' ''Invalid array length''))
      else map_option Inr (batch_loop w csvRows site form opts 0 [] []))"

section \<open>The summary\<close>

record BulkSubmitSummary =
  totalRows :: nat
  successfulRequests :: nat
  failedRequests :: nat
  successRate :: number
  totalProcessingTime :: number
  averageProcessingTime :: number
  averageResponseTime :: number

text \<open>\<^verbatim>\<open>calculateSummary\<close>. \<^verbatim>\<open>filter\<close> and \<^verbatim>\<open>reduce\<close> skip the holes of an array, and
  \<^verbatim>\<open>length\<close> counts them. The sum, the quotients and the products are operations on
  doubles, each rounded, in the order in which the source writes them.\<close>

definition calculateSummary :: "ProcessedRow option list \<Rightarrow> BulkSubmitSummary" where
  "calculateSummary results =
     (let successful =
            length (filter (\<lambda>r. case r of None \<Rightarrow> False | Some p \<Rightarrow> success p) results);
          failed = length results - successful;
          total =
            foldl (\<lambda>sum r. case r of None \<Rightarrow> sum
                            | Some p \<Rightarrow> num_plus sum (num_of_int (processingTime p)))
              (Num 0) results;
          average = num_div total (num_of_nat (length results))
      in \<lparr>totalRows = length results,
          successfulRequests = successful,
          failedRequests = failed,
          successRate =
            num_div
              (Math_round
                 (num_mult
                    (num_mult
                       (num_div (num_of_nat successful) (num_of_nat (length results)))
                       (Num 100))
                    (Num 10)))
              (Num 10),
          totalProcessingTime = Math_round total,
          averageProcessingTime = num_div (Math_round (num_mult average (Num 10))) (Num 10),
          averageResponseTime = num_div (Math_round (num_mult average (Num 10))) (Num 10)\<rparr>)"

section \<open>The tool\<close>

datatype operation = Submit | GetExamples | GetUsageGuide

text \<open>The parameters of \<^verbatim>\<open>execute\<close>; an optional field that is absent is \<open>None\<close>.\<close>

record FormBulkSubmitParameters =
  p_operation :: "operation option"
  p_siteId :: string
  p_elqFormName :: string
  p_csvData :: "string option"
  p_requestTimeout :: "int option"
  p_delayBetweenRequests :: "int option"
  p_validateOnly :: "bool option"
  p_maxConcurrentRequests :: "int option"
  p_exampleType :: "string option"

text \<open>The \<^verbatim>\<open>data\<close> of a result. The examples and the usage guide are static texts, the
  timestamp and the \<^verbatim>\<open>message\<close> of a result are left out.\<close>

datatype tool_data =
    Validation nat nat "string list"
  | Submission BulkSubmitSummary "ProcessedRow option list"
  | Examples string
  | UsageGuide

record ToolResult =
  result_success :: bool
  result_data :: "tool_data option"
  result_error :: "string option"

definition failure :: "string \<Rightarrow> ToolResult" where
  "failure msg = \<lparr>result_success = False, result_data = None, result_error = Some msg\<rparr>"

definition succeeded :: "tool_data \<Rightarrow> ToolResult" where
  "succeeded d = \<lparr>result_success = True, result_data = Some d, result_error = None\<rparr>"

text \<open>
  \<^verbatim>\<open>execute\<close>, with its \<^verbatim>\<open>try\<close>/\<^verbatim>\<open>catch\<close>: every error thrown below it becomes a failed
  result that carries the message. The result comes with the log of the run.
\<close>

definition execute :: "world \<Rightarrow> FormBulkSubmitParameters \<Rightarrow> (ToolResult \<times> event list) option" where
  "execute w p =
     (let op = (case p_operation p of None \<Rightarrow> Submit | Some x \<Rightarrow> x);
          opts = \<lparr>requestTimeout = (case p_requestTimeout p of None \<Rightarrow> 10 | Some x \<Rightarrow> x),
                  delayBetweenRequests =
                    (case p_delayBetweenRequests p of None \<Rightarrow> 100 | Some x \<Rightarrow> x),
                  maxConcurrentRequests =
                    (case p_maxConcurrentRequests p of None \<Rightarrow> 5 | Some x \<Rightarrow> x)\<rparr>;
          validateOnly = (case p_validateOnly p of None \<Rightarrow> False | Some x \<Rightarrow> x);
          exampleType = (case p_exampleType p of None \<Rightarrow> ''all'' | Some x \<Rightarrow> x)
      in if op = GetExamples then Some (succeeded (Examples exampleType), [])
         else if op = GetUsageGuide then Some (succeeded UsageGuide, [])
         else
           (case parseCsvData (case p_csvData p of None \<Rightarrow> [] | Some c \<Rightarrow> c) of
              Inl (JsError name msg) \<Rightarrow> Some (failure msg, [])
            | Inr csvRows \<Rightarrow>
                if length csvRows = 0 then
                  Some (failure ''No valid data rows found in CSV'', [])
                else if validateOnly then
                  Some (succeeded
                          (Validation (length csvRows) (length csvRows)
                             (map (\<lambda>(row, index).
                                     buildEloquaUrl (p_siteId p) (p_elqFormName p) row (index + 1))
                                (zip (take 3 csvRows) [0..<length (take 3 csvRows)]))),
                        [])
                else
                  (case processBulkSubmissions w csvRows (p_siteId p) (p_elqFormName p) opts of
                     None \<Rightarrow> None
                   | Some (Inl (JsError name msg)) \<Rightarrow> Some (failure msg, [])
                   | Some (Inr (results, trace)) \<Rightarrow>
                       Some (succeeded (Submission (calculateSummary results) results),
                             trace))))"

section \<open>Properties of the CSV line parser\<close>

lemma parseCsvLine_loop_nonempty: "parseCsvLine_loop s result current q \<noteq> []"
  by (induction s result current q rule: parseCsvLine_loop.induct)
     (simp_all split: list.splits)

lemma parseCsvLine_loop_inside_quote:
  "CHR 0x22 \<notin> set s \<Longrightarrow>
   parseCsvLine_loop (s @ rest) result current True =
     parseCsvLine_loop rest result (current @ s) True"
  by (induction s arbitrary: current) auto

lemma parseCsvLine_loop_open_quote:
  "CHR 0x22 \<notin> set s \<Longrightarrow> parseCsvLine_loop s result current True = result @ [current @ s]"
  using parseCsvLine_loop_inside_quote [of s "[]" result current] by simp

lemma parseCsvLine_loop_plain_prefix:
  "CHR 0x22 \<notin> set pre \<Longrightarrow>
   parseCsvLine_loop (pre @ s) result current False =
     (let fs = parseCsvLine_loop pre result current False
      in parseCsvLine_loop s (butlast fs) (last fs) False)"
proof (induction pre arbitrary: result current)
  case Nil
  then show ?case by simp
next
  case (Cons c pre)
  then have "c \<noteq> CHR 0x22" and "CHR 0x22 \<notin> set pre" by auto
  then show ?case using Cons.IH by simp
qed

text \<open>
  C10. The line parser is total and tolerant of malformed quoting: every line gives at
  least one field; while a quote is open, the characters up to the next quote, commas
  included, are appended to the field being read and split nothing; when no further quote
  follows, that field runs to the end of the line; so a line whose only quote is
  unterminated ends in one field that holds the rest of the line.
\<close>

theorem parseCsvLine_total_tolerant:
  "length (parseCsvLine line) \<ge> 1 \<and>
   (CHR 0x22 \<notin> set s \<longrightarrow>
      parseCsvLine_loop (s @ rest) result current True =
        parseCsvLine_loop rest result (current @ s) True \<and>
      parseCsvLine_loop s result current True = result @ [current @ s]) \<and>
   (CHR 0x22 \<notin> set pre \<and> CHR 0x22 \<notin> set s \<longrightarrow>
      parseCsvLine (pre @ CHR 0x22 # s) =
        butlast (parseCsvLine pre) @ [last (parseCsvLine pre) @ s])"
proof (intro conjI impI)
  have "parseCsvLine line \<noteq> []"
    unfolding parseCsvLine_def by (rule parseCsvLine_loop_nonempty)
  then show "length (parseCsvLine line) \<ge> 1"
    by (cases "parseCsvLine line") simp_all
next
  assume "CHR 0x22 \<notin> set s"
  then show "parseCsvLine_loop (s @ rest) result current True =
        parseCsvLine_loop rest result (current @ s) True"
    by (rule parseCsvLine_loop_inside_quote)
next
  assume "CHR 0x22 \<notin> set s"
  then show "parseCsvLine_loop s result current True = result @ [current @ s]"
    by (rule parseCsvLine_loop_open_quote)
next
  assume a: "CHR 0x22 \<notin> set pre \<and> CHR 0x22 \<notin> set s"
  let ?fs = "parseCsvLine_loop pre [] [] False"
  have "parseCsvLine (pre @ CHR 0x22 # s) =
          parseCsvLine_loop (CHR 0x22 # s) (butlast ?fs) (last ?fs) False"
    unfolding parseCsvLine_def using a
    by (simp add: parseCsvLine_loop_plain_prefix Let_def)
  also have "\<dots> = parseCsvLine_loop s (butlast ?fs) (last ?fs) True"
    by (cases s) simp_all
  also have "\<dots> = butlast ?fs @ [last ?fs @ s]"
    using a by (simp add: parseCsvLine_loop_open_quote)
  finally show "parseCsvLine (pre @ CHR 0x22 # s) =
        butlast (parseCsvLine pre) @ [last (parseCsvLine pre) @ s]"
    by (simp add: parseCsvLine_def)
qed

theorem parseCsvLine_total_tolerant_witness:
  "length (parseCsvLine [CHR ''a'', CHR '','', CHR 0x22, CHR ''b'', CHR '','', CHR ''c'']) \<ge> 1 \<and>
   parseCsvLine_loop (''b,c'' @ [CHR 0x22, CHR '','', CHR ''d'']) [''a''] [] True =
     [''a'', ''b,c'', ''d''] \<and>
   parseCsvLine_loop ''b,c'' [''a''] [] True = [''a'', ''b,c''] \<and>
   parseCsvLine [CHR ''a'', CHR '','', CHR 0x22, CHR ''b'', CHR '','', CHR ''c''] = [''a'', ''b,c'']"
  using parseCsvLine_total_tolerant
    [of "[CHR ''a'', CHR '','', CHR 0x22, CHR ''b'', CHR '','', CHR ''c'']"
        "''b,c''" "[CHR 0x22, CHR '','', CHR ''d'']" "[''a'']" "[]" "''a,''"]
  by (simp add: parseCsvLine_def)

section \<open>Properties of CSV ingestion\<close>

lemma trim_Nil: "trim [] = []"
  by (simp add: trim_def)

lemma dangerousCells_nonblank:
  assumes "dangerousCells (split (CHR 0x0A) (trim csvData))"
  shows "trim csvData \<noteq> [] \<and> csvData \<noteq> []"
proof -
  have "\<not> dangerousCells (split (CHR 0x0A) [])"
    by (simp add: dangerousCells_def split_def dangerousCell_def trim_def
        strip_leading_quote_def strip_trailing_quote_def dangerousPrefix_def
        startsWith_def endsWith_def)
  with assms have "trim csvData \<noteq> []" by auto
  moreover from this have "csvData \<noteq> []" using trim_Nil by auto
  ultimately show ?thesis by simp
qed

text \<open>A CSV text whose second line starts with a spreadsheet formula.\<close>

definition formula_csv :: string where
  "formula_csv = ''a,b'' @ [CHR 0x0A] @ ''=SUM(A1:A2),2''"

text \<open>
  C2, as stated, fails: a cell that starts with \<^verbatim>\<open>=\<close> makes the validator report an
  error, and ingestion throws instead of going on with a neutralized cell. For this input
  the validator's sanitized text holds the cell with an apostrophe in front, HTML-escaped;
  ingestion throws before reading it.
\<close>

theorem formula_cell_counterexample:
  "dangerousCells (split (CHR 0x0A) (trim formula_csv)) \<and>
   parseCsvData formula_csv =
     Inl (JsError ''Error''
           ''CSV validation failed: CSV contains potentially dangerous formulas'') \<and>
   sanitizedValue (validateCsvData formula_csv) =
     Some (''a,b'' @ [CHR 0x0A] @ ''&#x27;=SUM(A1:A2),2'')"
  by code_simp

text \<open>
  C2, amended. A cell is a piece between commas of a line of the trimmed input (header
  line included). Whenever some cell, once trimmed and without one leading and one
  trailing double quote, starts with \<^verbatim>\<open>=\<close>, \<^verbatim>\<open>@\<close>, \<^verbatim>\<open>+\<close> or \<^verbatim>\<open>-\<close>, the validator reports
  the input invalid, with \<^verbatim>\<open>CSV contains potentially dangerous formulas\<close> among its errors,
  and ingestion rejects the whole input: it throws an error whose message is
  \<^verbatim>\<open>CSV validation failed: \<close> followed by the validator's errors joined by a comma and a
  space, and gives no rows.
\<close>

theorem formula_cell_rejects_input:
  assumes "dangerousCells (split (CHR 0x0A) (trim csvData))"
  shows "\<not> isValid (validateCsvData csvData) \<and>
         ''CSV contains potentially dangerous formulas'' \<in> set (errors (validateCsvData csvData)) \<and>
         parseCsvData csvData =
           Inl (JsError ''Error''
                 (''CSV validation failed: '' @ join '', '' (errors (validateCsvData csvData))))"
proof -
  from dangerousCells_nonblank[OF assms]
  have nb: "trim csvData \<noteq> []" and ne: "csvData \<noteq> []" by simp_all
  have e: "''CSV contains potentially dangerous formulas'' \<in> set (errors (validateCsvData csvData))"
    using assms nb ne by (simp add: validateCsvData_def Let_def)
  have v: "\<not> isValid (validateCsvData csvData)"
    using assms nb ne by (simp add: validateCsvData_def Let_def)
  show ?thesis using e v nb by (simp add: parseCsvData_def Let_def)
qed

theorem formula_cell_rejects_input_witness:
  "dangerousCells (split (CHR 0x0A) (trim formula_csv)) \<and>
   \<not> isValid (validateCsvData formula_csv) \<and>
   parseCsvData formula_csv =
     Inl (JsError ''Error''
           ''CSV validation failed: CSV contains potentially dangerous formulas'')"
proof -
  have d: "dangerousCells (split (CHR 0x0A) (trim formula_csv))" by code_simp
  have "errors (validateCsvData formula_csv) = [''CSV contains potentially dangerous formulas'']"
    by code_simp
  with formula_cell_rejects_input[OF d] d show ?thesis by simp
qed

section \<open>Properties of one submission\<close>

lemma round_half_up_of_int: "round_half_up (of_int n) = n"
  unfolding round_half_up_def by linarith

lemma processRow_cases:
  "snd (processRow w rowData site form rowNo timeout) =
     (let r = transport w rowNo (row_request site form rowData rowNo);
          settled = fetch_with_abort r (of_int timeout * 1000)
      in case snd settled of
            Responds status (BodyText responseText) \<Rightarrow>
              Some \<lparr>rowNumber = rowNo, success = True, statusCode = Some status,
                    processingTime = round_half_up (fst settled),
                    url = Some (buildEloquaUrl site form rowData rowNo),
                    parametersCount = length rowData,
                    responseSize = Some (length responseText),
                    error = None, data = Some rowData\<rparr>
          | Responds status (BodyFails e) \<Rightarrow>
              Some (failedRow rowNo rowData (fst settled + body_ms r) e)
          | Responds status BodyNever \<Rightarrow> None
          | Rejects e \<Rightarrow> Some (failedRow rowNo rowData (fst settled) e))"
  by (simp add: processRow_def Let_def)

lemma processRow_events:
  "fst (processRow w rowData site form rowNo timeout) =
     [Fetch (row_request site form rowData rowNo)]"
  by (simp add: processRow_def Let_def)

text \<open>A world for examples: every request gets the same reply after the same time, and
  every batch settles in the same order.\<close>

definition fixed_world :: "settlement option \<Rightarrow> rat \<Rightarrow> nat list \<Rightarrow> world" where
  "fixed_world s ms order =
     \<lparr>transport = (\<lambda>n req. \<lparr>settles = s, fetch_ms = ms, body_ms = 3\<rparr>),
      completion = (\<lambda>i. order)\<rparr>"

text \<open>
  C3. When the request completes without a transport error (the \<^verbatim>\<open>fetch\<close> promise
  resolves and the body is read), \<^verbatim>\<open>processRow\<close> returns a row that is a success and
  carries the remote status code, whatever that code is; it returns a failed row only when
  \<^verbatim>\<open>fetch\<close> is rejected (timeout, DNS, connection, abort) or reading the body fails.
\<close>

theorem transport_success_keeps_status:
  "(snd (fetch_with_abort (transport w rowNo (row_request site form rowData rowNo))
           (of_int timeout * 1000)) = Responds status (BodyText txt) \<longrightarrow>
      (\<exists>out. snd (processRow w rowData site form rowNo timeout) = Some out \<and>
             success out \<and> statusCode out = Some status)) \<and>
   ((\<exists>out. snd (processRow w rowData site form rowNo timeout) = Some out \<and> \<not> success out) \<longleftrightarrow>
      (\<exists>e. snd (fetch_with_abort (transport w rowNo (row_request site form rowData rowNo))
                (of_int timeout * 1000)) = Rejects e) \<or>
      (\<exists>st e. snd (fetch_with_abort (transport w rowNo (row_request site form rowData rowNo))
                (of_int timeout * 1000)) = Responds st (BodyFails e)))"
  by (simp add: processRow_cases Let_def failedRow_def
      split: settlement.splits body_read.splits)

theorem transport_success_keeps_status_witness:
  "snd (fetch_with_abort
          (transport (fixed_world (Some (Responds 404 (BodyText ''Not Found''))) 40 [])
             1 (row_request ''100'' ''X'' [(''a'', ''1'')] 1))
          (of_int 10 * 1000)) = Responds 404 (BodyText ''Not Found'') \<and>
   (\<exists>out. snd (processRow (fixed_world (Some (Responds 404 (BodyText ''Not Found''))) 40 [])
                  [(''a'', ''1'')] ''100'' ''X'' 1 10) = Some out \<and>
          success out \<and> statusCode out = Some 404)"
proof -
  have h: "snd (fetch_with_abort
          (transport (fixed_world (Some (Responds 404 (BodyText ''Not Found''))) 40 [])
             1 (row_request ''100'' ''X'' [(''a'', ''1'')] 1))
          (of_int 10 * 1000)) = Responds 404 (BodyText ''Not Found'')"
    by (simp add: fixed_world_def fetch_with_abort_def)
  from transport_success_keeps_status
    [of "fixed_world (Some (Responds 404 (BodyText ''Not Found''))) 40 []" 1 "''100''" "''X''"
        "[(''a'', ''1'')]" 10 404 "''Not Found''"] h
  show ?thesis by blast
qed

text \<open>
  What \<^verbatim>\<open>processRow\<close> does capture: a rejected \<^verbatim>\<open>fetch\<close> and a failed body read both give
  a failed row with a message and no status code, and a response that has not arrived
  when the timer fires, after \<open>timeout * 1000\<close> ms, gives a failed row with the message
  \<^verbatim>\<open>Request timeout\<close>. A row that is returned carries the row number and the data.
\<close>

lemma processRow_failed_rows:
  "(\<forall>e. snd (fetch_with_abort (transport w rowNo (row_request site form rowData rowNo))
                (of_int timeout * 1000)) = Rejects e \<longrightarrow>
      (\<exists>out. snd (processRow w rowData site form rowNo timeout) = Some out \<and>
             \<not> success out \<and> error out = Some (errorMessage e) \<and> statusCode out = None)) \<and>
   (\<forall>st e. snd (fetch_with_abort (transport w rowNo (row_request site form rowData rowNo))
                (of_int timeout * 1000)) = Responds st (BodyFails e) \<longrightarrow>
      (\<exists>out. snd (processRow w rowData site form rowNo timeout) = Some out \<and>
             \<not> success out \<and> error out = Some (errorMessage e) \<and> statusCode out = None)) \<and>
   (settles (transport w rowNo (row_request site form rowData rowNo)) = None \<or>
    of_int timeout * 1000 \<le> fetch_ms (transport w rowNo (row_request site form rowData rowNo)) \<longrightarrow>
      (\<exists>out. snd (processRow w rowData site form rowNo timeout) = Some out \<and>
             \<not> success out \<and> error out = Some ''Request timeout'' \<and> statusCode out = None))"
  by (auto simp add: processRow_cases Let_def failedRow_def fetch_with_abort_def
      errorMessage_def abortError_def
      split: settlement.splits body_read.splits option.splits)

lemma processRow_rowNumber_data:
  "snd (processRow w rowData site form rowNo timeout) = Some out \<Longrightarrow>
   rowNumber out = rowNo \<and> data out = Some rowData"
  by (auto simp add: processRow_cases Let_def failedRow_def
      split: settlement.splits body_read.splits)

lemma processRow_returns:
  "snd (processRow w rowData site form rowNo timeout) = None \<longleftrightarrow>
   (\<exists>st. snd (fetch_with_abort (transport w rowNo (row_request site form rowData rowNo))
              (of_int timeout * 1000)) = Responds st BodyNever)"
  by (simp add: processRow_cases Let_def split: settlement.splits body_read.splits)

text \<open>A world where every response arrives after 40 ms with status 200, and its body is
  read as given, in the given time. One row, and options with a timeout of one second.\<close>

definition body_world :: "body_read \<Rightarrow> rat \<Rightarrow> world" where
  "body_world b ms =
     \<lparr>transport = (\<lambda>n req. \<lparr>settles = Some (Responds 200 b), fetch_ms = 40, body_ms = ms\<rparr>),
      completion = (\<lambda>i. [0])\<rparr>"

definition one_row :: row where
  "one_row = [(''a'', ''1'')]"

definition one_second :: options where
  "one_second = \<lparr>requestTimeout = 1, delayBetweenRequests = 0, maxConcurrentRequests = 5\<rparr>"

text \<open>
  C5. The code does not do what the claim says when the response arrives in time and its
  body does not. The timer that aborts the request is cleared as soon as \<^verbatim>\<open>fetch\<close> has
  resolved, before \<^verbatim>\<open>await response.text()\<close>. With a timeout of one second, a response
  after 40 ms whose body takes a day to arrive is read to the end: the request has
  exceeded the timeout, and the row is a success with status code 200 and no error. When
  the body never ends, \<^verbatim>\<open>processRow\<close> never returns, and neither does the job that waits
  for it.
\<close>

theorem body_read_outlives_timer:
  "of_int (requestTimeout one_second) * 1000 <
     fetch_ms (transport (body_world (BodyText ''ok'') 86400000) 1
                 (row_request ''100'' ''X'' one_row 1)) +
     body_ms (transport (body_world (BodyText ''ok'') 86400000) 1
                 (row_request ''100'' ''X'' one_row 1)) \<and>
   snd (processRow (body_world (BodyText ''ok'') 86400000) one_row ''100'' ''X'' 1
          (requestTimeout one_second)) =
     Some \<lparr>rowNumber = 1, success = True, statusCode = Some 200, processingTime = 40,
           url = Some ''https://s100.t.eloqua.com/e/f2?elqFormName=X&elqSiteID=100&a=1'',
           parametersCount = 1, responseSize = Some 2, error = None,
           data = Some [(''a'', ''1'')]\<rparr> \<and>
   snd (processRow (body_world BodyNever 0) one_row ''100'' ''X'' 1
          (requestTimeout one_second)) = None \<and>
   processBulkSubmissions (body_world BodyNever 0) [one_row] ''100'' ''X'' one_second = None"
proof -
  have a: "of_int (requestTimeout one_second) * 1000 <
     fetch_ms (transport (body_world (BodyText ''ok'') 86400000) 1
                 (row_request ''100'' ''X'' one_row 1)) +
     body_ms (transport (body_world (BodyText ''ok'') 86400000) 1
                 (row_request ''100'' ''X'' one_row 1))"
    by (simp add: body_world_def one_second_def)
  have u: "buildEloquaUrl ''100'' ''X'' one_row 1 =
             ''https://s100.t.eloqua.com/e/f2?elqFormName=X&elqSiteID=100&a=1''"
    by code_simp
  have r: "round_half_up 40 = 40" using round_half_up_of_int [of 40] by simp
  have b: "snd (processRow (body_world (BodyText ''ok'') 86400000) one_row ''100'' ''X'' 1
          (requestTimeout one_second)) =
     Some \<lparr>rowNumber = 1, success = True, statusCode = Some 200, processingTime = 40,
           url = Some ''https://s100.t.eloqua.com/e/f2?elqFormName=X&elqSiteID=100&a=1'',
           parametersCount = 1, responseSize = Some 2, error = None,
           data = Some [(''a'', ''1'')]\<rparr>"
    unfolding processRow_cases u
    by (simp add: body_world_def one_second_def fetch_with_abort_def r one_row_def)
  have c: "snd (processRow (body_world BodyNever 0) one_row ''100'' ''X'' 1
          (requestTimeout one_second)) = None"
    unfolding processRow_cases
    by (simp add: body_world_def one_second_def fetch_with_abort_def)
  have d: "processBulkSubmissions (body_world BodyNever 0) [one_row] ''100'' ''X'' one_second = None"
    apply (simp add: processBulkSubmissions_def one_second_def)
    apply (subst batch_loop.simps)
    using c apply (simp add: processBatch_def allSettled_def one_second_def body_world_def)
    done
  from a b c d show ?thesis by (intro conjI)
qed

lemma getSubstitution_plain:
  "CHR ''$'' \<notin> set s \<Longrightarrow> getSubstitution m f b s = s"
  by (induction m f b s rule: getSubstitution.induct) auto

lemma baseUrl_plain:
  assumes "CHR ''$'' \<notin> set site"
  shows "replace_first ELOQUA_BASE_URL ''{siteId}'' site =
           ''https://s'' @ site @ ''.t.eloqua.com/e/f2''"
proof -
  have "find_first ''{siteId}'' [] ELOQUA_BASE_URL = Some (''https://s'', ''.t.eloqua.com/e/f2'')"
    by (simp add: ELOQUA_BASE_URL_def)
  then show ?thesis
    using assms by (simp add: replace_first_def getSubstitution_plain)
qed

text \<open>What it means for a form-encoded body to contain a parameter.\<close>

definition body_has_pair :: "string \<Rightarrow> string \<Rightarrow> string \<Rightarrow> bool" where
  "body_has_pair body k v = (urlencode_pair (k, v) \<in> set (split CHR ''&'' body))"

text \<open>
  C6, as stated, fails: the body of the request holds the pairs of the row only; the two
  control parameters travel in the query string of the URL.
\<close>

theorem control_parameters_counterexample:
  "fst (processRow (fixed_world (Some (Responds 200 (BodyText ''ok''))) 40 [])
          [(''a'', ''1'')] ''100'' ''X'' 1 10) =
     [Fetch \<lparr>req_url = ''https://s100.t.eloqua.com/e/f2?elqFormName=X&elqSiteID=100&a=1'',
             req_method = ''POST'',
             req_headers = [(''Content-Type'', ''application/x-www-form-urlencoded''),
                            (''User-Agent'', ''EloquaAdminToolbox-BulkSubmit/1.0'')],
             req_body = ''a=1''\<rparr>] \<and>
   \<not> body_has_pair ''a=1'' ''elqFormName'' ''X'' \<and>
   \<not> body_has_pair ''a=1'' ''elqSiteID'' ''100''"
  by code_simp

text \<open>
  C6, amended. For a site identifier without a dollar sign (a numeric one in particular),
  each row is sent by exactly one \<^verbatim>\<open>POST\<close> with content type
  \<^verbatim>\<open>application/x-www-form-urlencoded\<close>; the URL is
  \<^verbatim>\<open>https://s{siteId}.t.eloqua.com/e/f2\<close> followed by a query string with \<^verbatim>\<open>elqFormName\<close>,
  \<^verbatim>\<open>elqSiteID\<close> and then every pair of the row, URL-encoded; the body is the URL-encoded
  pairs of the row alone.
\<close>

theorem request_of_row:
  assumes "CHR ''$'' \<notin> set site"
  shows "fst (processRow w rowData site form rowNo timeout) =
     [Fetch \<lparr>req_url = ''https://s'' @ site @ ''.t.eloqua.com/e/f2?'' @
                join ''&'' (map urlencode_pair
                  ([(''elqFormName'', form), (''elqSiteID'', site)] @ rowData)),
             req_method = ''POST'',
             req_headers = [(''Content-Type'', ''application/x-www-form-urlencoded''),
                            (''User-Agent'', ''EloquaAdminToolbox-BulkSubmit/1.0'')],
             req_body = join ''&'' (map urlencode_pair rowData)\<rparr>]"
  using assms
  by (simp add: processRow_events row_request_def buildEloquaUrl_def Let_def
      baseUrl_plain params_toString_def)

theorem request_of_row_witness:
  "CHR ''$'' \<notin> set ''100'' \<and>
   fst (processRow (fixed_world None 0 []) [(''a b'', ''1&2'')] ''100'' ''X'' 1 10) =
     [Fetch \<lparr>req_url = ''https://s100.t.eloqua.com/e/f2?elqFormName=X&elqSiteID=100&a+b=1%262'',
             req_method = ''POST'',
             req_headers = [(''Content-Type'', ''application/x-www-form-urlencoded''),
                            (''User-Agent'', ''EloquaAdminToolbox-BulkSubmit/1.0'')],
             req_body = ''a+b=1%262''\<rparr>]"
proof -
  have h: "CHR ''$'' \<notin> set ''100''" by simp
  have e: "join ''&'' (map urlencode_pair [(''elqFormName'', ''X''), (''elqSiteID'', ''100''), (''a b'', ''1&2'')])
           = ''elqFormName=X&elqSiteID=100&a+b=1%262''"
    by code_simp
  have b: "join ''&'' (map urlencode_pair [(''a b'', ''1&2'')]) = ''a+b=1%262''"
    by code_simp
  from request_of_row [OF h, of "fixed_world None 0 []" "[(''a b'', ''1&2'')]" "''X''" 1 10] h e b
  show ?thesis by simp
qed

section \<open>Properties of numbers\<close>

text \<open>
  The facts about doubles that the summary needs: integers below \<open>2\<^sup>5\<^sup>3\<close> are doubles, an
  operation on numbers of moderate size has a relative error of at most \<open>2\<^sup>-\<^sup>5\<^sup>3\<close>, and
  rounding to the nearest integer absorbs an error smaller than the distance to the nearest
  tie.
\<close>

lemma to_double_0: "to_double 0 = Num 0"
  by (simp add: to_double_def fround_def)

lemma pow_nat_power_int: "0 \<le> k \<Longrightarrow> (2::rat) ^ nat k = power_int 2 k"
  by (simp add: power_int_def)

lemma exponent_bounds:
  assumes "x \<noteq> 0"
  shows "power_int 2 (exponent x) \<le> \<bar>x\<bar> \<and> \<bar>x\<bar> < power_int 2 (exponent x + 1)"
proof -
  define a where "a = fst (quotient_of \<bar>x\<bar>)"
  define b where "b = snd (quotient_of \<bar>x\<bar>)"
  define d where "d = bitlen a - bitlen b"
  have q: "quotient_of \<bar>x\<bar> = (a, b)" by (simp add: a_def b_def)
  have bpos: "0 < b" using quotient_of_denom_pos [OF q] .
  have xab: "\<bar>x\<bar> = of_int a / of_int b" using quotient_of_div [OF q] .
  have xpos: "0 < \<bar>x\<bar>" using assms by simp
  have apos: "0 < a"
  proof (rule ccontr)
    assume "\<not> 0 < a"
    then have "of_int a / (of_int b :: rat) \<le> 0" using bpos by (simp add: divide_le_0_iff)
    with xab xpos show False by simp
  qed
  from bitlen_bounds [OF apos] have a1: "2 ^ nat (bitlen a - 1) \<le> a" and a2: "a < 2 ^ nat (bitlen a)"
    by simp_all
  from bitlen_bounds [OF bpos] have b1: "2 ^ nat (bitlen b - 1) \<le> b" and b2: "b < 2 ^ nat (bitlen b)"
    by simp_all
  have la: "1 \<le> bitlen a" and lb: "1 \<le> bitlen b"
    using apos bpos by (auto simp: bitlen_alt_def)
  have ra1: "power_int 2 (bitlen a - 1) \<le> (of_int a :: rat)"
  proof -
    have "(of_int (2 ^ nat (bitlen a - 1)) :: rat) \<le> of_int a" using a1 by (simp only: of_int_le_iff)
    then show ?thesis using la by (simp add: pow_nat_power_int)
  qed
  have ra2: "(of_int a :: rat) < power_int 2 (bitlen a)"
  proof -
    have "(of_int a :: rat) < of_int (2 ^ nat (bitlen a))" using a2 by (simp only: of_int_less_iff)
    then show ?thesis using la by (simp add: pow_nat_power_int)
  qed
  have rb1: "power_int 2 (bitlen b - 1) \<le> (of_int b :: rat)"
  proof -
    have "(of_int (2 ^ nat (bitlen b - 1)) :: rat) \<le> of_int b" using b1 by (simp only: of_int_le_iff)
    then show ?thesis using lb by (simp add: pow_nat_power_int)
  qed
  have rb2: "(of_int b :: rat) < power_int 2 (bitlen b)"
  proof -
    have "(of_int b :: rat) < of_int (2 ^ nat (bitlen b))" using b2 by (simp only: of_int_less_iff)
    then show ?thesis using lb by (simp add: pow_nat_power_int)
  qed
  have bq: "0 < (of_int b :: rat)" using bpos by simp
  have aq: "0 < (of_int a :: rat)" using apos by simp
  have p1: "0 < (power_int 2 (bitlen b - 1) :: rat)" and p2: "0 < (power_int 2 (bitlen b) :: rat)"
    by simp_all
  have upper: "\<bar>x\<bar> < power_int 2 (d + 1)"
  proof -
    have "of_int a / of_int b \<le> (of_int a :: rat) / power_int 2 (bitlen b - 1)"
      using rb1 aq p1 by (simp add: frac_le)
    also have "\<dots> < power_int 2 (bitlen a) / power_int 2 (bitlen b - 1)"
      using ra2 p1 by (simp add: divide_strict_right_mono)
    also have "\<dots> = power_int 2 (bitlen a - (bitlen b - 1))"
      by (simp add: power_int_diff)
    finally show ?thesis unfolding xab d_def by (simp add: algebra_simps)
  qed
  have lower: "power_int 2 (d - 1) < \<bar>x\<bar>"
  proof -
    have "power_int 2 (d - 1) = (power_int 2 (bitlen a - 1) :: rat) / power_int 2 (bitlen b)"
      unfolding d_def by (simp add: power_int_diff [symmetric] algebra_simps)
    also have "\<dots> \<le> of_int a / power_int 2 (bitlen b)"
      using ra1 p2 by (simp add: divide_right_mono)
    also have "\<dots> < of_int a / of_int b"
      using rb2 aq bq by (simp add: divide_strict_left_mono)
    finally show ?thesis unfolding xab .
  qed
  have e: "exponent x = (if power_int 2 d \<le> \<bar>x\<bar> then d else d - 1)"
    unfolding exponent_def Let_def a_def b_def d_def ..
  show ?thesis
  proof (cases "power_int 2 d \<le> \<bar>x\<bar>")
    case True
    with e upper show ?thesis by simp
  next
    case False
    with e lower show ?thesis by simp
  qed
qed

lemma round_ties_even_close: "\<bar>of_int (round_ties_even q) - q\<bar> \<le> 1 / 2"
  unfolding round_ties_even_def Let_def by (auto simp: abs_if) linarith+

lemma round_ties_even_of_int: "round_ties_even (of_int k) = k"
  unfolding round_ties_even_def Let_def by simp

lemma power_int_2_lessD:
  assumes "(power_int 2 a :: rat) < power_int 2 b"
  shows "a < b"
proof (rule ccontr)
  assume "\<not> a < b"
  then have "b \<le> a" by simp
  then have "(power_int 2 b :: rat) \<le> power_int 2 a" by (rule power_int_increasing) simp
  with assms show False by simp
qed

lemma exponent_normal:
  assumes "power_int 2 (- 1022) \<le> \<bar>x\<bar>"
  shows "- 1022 \<le> exponent x"
proof -
  have "x \<noteq> 0" using assms by auto
  from exponent_bounds [OF this] assms
  have "(power_int 2 (- 1022) :: rat) < power_int 2 (exponent x + 1)" by linarith
  then have "- 1022 < exponent x + 1" by (rule power_int_2_lessD)
  then show ?thesis by simp
qed

lemma fround_error:
  assumes "power_int 2 (- 1022) \<le> \<bar>x\<bar>"
  shows "\<bar>fround x - x\<bar> \<le> \<bar>x\<bar> * power_int 2 (- 53)"
proof -
  have nz: "x \<noteq> 0" using assms by auto
  define e where "e = exponent x"
  define u :: rat where "u = power_int 2 (e - 52)"
  have upos: "0 < u" by (simp add: u_def)
  have m: "max (exponent x) (- 1022) = e" using exponent_normal [OF assms] by (simp add: e_def)
  have fr: "fround x = of_int (round_ties_even (x / u)) * u"
    using nz by (simp add: fround_def Let_def m u_def)
  have "fround x - x = (of_int (round_ties_even (x / u)) - x / u) * u"
    using upos by (simp add: fr algebra_simps)
  then have "\<bar>fround x - x\<bar> = \<bar>of_int (round_ties_even (x / u)) - x / u\<bar> * u"
    using upos by (simp add: abs_mult)
  also have "\<dots> \<le> 1 / 2 * u"
    using round_ties_even_close [of "x / u"] upos by (simp add: mult_right_mono)
  also have "1 / 2 * u = power_int 2 e * power_int 2 (- 53)"
  proof -
    have "u = power_int 2 (e + (- 53) + 1)" by (simp add: u_def)
    also have "\<dots> = power_int 2 (e + (- 53)) * 2"
      by (subst power_int_add) simp_all
    also have "power_int 2 (e + (- 53)) = (power_int 2 e :: rat) * power_int 2 (- 53)"
      by (subst power_int_add) simp_all
    finally show ?thesis by simp
  qed
  also have "\<dots> \<le> \<bar>x\<bar> * power_int 2 (- 53)"
    using exponent_bounds [OF nz] by (simp add: e_def mult_right_mono)
  finally show ?thesis .
qed

lemma fround_of_int:
  assumes "\<bar>k\<bar> < 2 ^ 53"
  shows "fround (of_int k) = of_int k"
proof (cases "k = 0")
  case True
  then show ?thesis by (simp add: fround_def)
next
  case False
  define x :: rat where "x = of_int k"
  define e where "e = exponent x"
  have nz: "x \<noteq> 0" using False by (simp add: x_def)
  have one: "1 \<le> \<bar>x\<bar>" using False by (simp add: x_def flip: of_int_abs)
  have lt: "\<bar>x\<bar> < 2 ^ 53"
  proof -
    have "(of_int \<bar>k\<bar> :: rat) < of_int (2 ^ 53)" using assms by (simp only: of_int_less_iff)
    then show ?thesis by (simp add: x_def)
  qed
  from exponent_bounds [OF nz] one lt
  have p0: "(power_int 2 0 :: rat) < power_int 2 (e + 1)"
    and p53: "(power_int 2 e :: rat) < power_int 2 53"
    unfolding e_def by simp_all
  have "0 < e + 1" using p0 by (rule power_int_2_lessD)
  moreover have "e < 53" using p53 by (rule power_int_2_lessD)
  ultimately have e0: "0 \<le> e" and e52: "e \<le> 52" by simp_all
  have m: "max (exponent x) (- 1022) = e" using e0 by (simp add: e_def)
  define u :: rat where "u = power_int 2 (e - 52)"
  have "u = 1 / 2 ^ nat (52 - e)"
    using e52 by (simp add: u_def power_int_def inverse_eq_divide power_one_over)
  then have "x / u = of_int (k * 2 ^ nat (52 - e))" by (simp add: x_def)
  then have r: "round_ties_even (x / u) = k * 2 ^ nat (52 - e)"
    by (simp only: round_ties_even_of_int)
  have upos: "0 < u" by (simp add: u_def)
  have "fround x = of_int (round_ties_even (x / u)) * u"
    using nz by (simp add: fround_def Let_def m u_def)
  also have "\<dots> = x / u * u" using \<open>x / u = of_int (k * 2 ^ nat (52 - e))\<close> r by simp
  also have "\<dots> = x" using upos by simp
  finally show ?thesis by (simp add: x_def)
qed

lemma to_double_of_int:
  assumes "\<bar>k\<bar> < 2 ^ 53"
  shows "to_double (of_int k) = Num (of_int k)"
proof -
  have "(of_int \<bar>k\<bar> :: rat) < of_int (2 ^ 53)" using assms by (simp only: of_int_less_iff)
  then have "\<bar>of_int k :: rat\<bar> < 2 ^ 53" by simp
  also have "(2 :: rat) ^ 53 < 2 ^ 1024" by (rule power_strict_increasing) simp_all
  finally have "\<not> (power_int 2 1024 \<le> \<bar>of_int k :: rat\<bar>)" by simp
  then show ?thesis by (simp add: to_double_def Let_def fround_of_int [OF assms])
qed

lemma to_double_close:
  assumes lo: "1 / 2 ^ 40 \<le> x" and hi: "x \<le> 2 ^ 60"
  shows "\<exists>y. to_double x = Num y \<and> x * (1 - 1 / 2 ^ 53) \<le> y \<and> y \<le> x * (1 + 1 / 2 ^ 53)"
proof -
  have xpos: "0 < x" using lo by (rule less_le_trans [rotated]) simp
  have "(power_int 2 (- 1022) :: rat) \<le> power_int 2 (- 40)"
    by (rule power_int_increasing) simp_all
  also have "(power_int 2 (- 40) :: rat) = 1 / 2 ^ 40"
    by (simp add: power_int_minus inverse_eq_divide)
  finally have "power_int 2 (- 1022) \<le> \<bar>x\<bar>" using lo xpos by simp
  from fround_error [OF this]
  have err: "\<bar>fround x - x\<bar> \<le> x * (1 / 2 ^ 53)"
    using xpos by (simp only: power_int_minus power_int_numeral inverse_eq_divide abs_of_pos)
  define u :: rat where "u = 1 / 2 ^ 53"
  have d1: "x * (1 - u) = x - x * u" and d2: "x * (1 + u) = x + x * u"
    by (simp_all add: algebra_simps)
  from err have "fround x - x \<le> x * u" and "x - fround x \<le> x * u"
    unfolding u_def [symmetric] by (simp_all only: abs_le_iff minus_diff_eq)
  then have "x * (1 - u) \<le> fround x" and "fround x \<le> x * (1 + u)"
    unfolding d1 d2 by linarith+
  then have low: "x * (1 - 1 / 2 ^ 53) \<le> fround x" and up: "fround x \<le> x * (1 + 1 / 2 ^ 53)"
    unfolding u_def by simp_all
  have "0 < x * (1 - 1 / 2 ^ 53)" using xpos by simp
  with low have ypos: "0 < fround x" by linarith
  have "x * (1 + 1 / 2 ^ 53) \<le> x * 2" using xpos by simp
  with up hi have "fround x \<le> 2 ^ 61" by simp
  also have "(2 :: rat) ^ 61 < 2 ^ 1024" by (rule power_strict_increasing) simp_all
  finally have "\<not> (power_int 2 1024 \<le> \<bar>fround x\<bar>)" using ypos by simp
  then have "to_double x = Num (fround x)" by (simp add: to_double_def Let_def)
  with low up show ?thesis by blast
qed

text \<open>Rounding to the nearest integer is stable under a small error away from ties.\<close>

lemma round_stable:
  fixes N :: int and n :: int and c :: rat
  assumes n: "0 < n"
    and notie: "2 * N mod (2 * n) \<noteq> n"
    and close: "\<bar>c - of_int N / of_int n\<bar> < 1 / (2 * of_int n)"
  shows "\<lfloor>c + 1 / 2\<rfloor> = \<lfloor>of_int N / of_int n + 1 / 2 :: rat\<rfloor>"
proof -
  define K where "K = \<lfloor>of_int N / of_int n + 1 / 2 :: rat\<rfloor>"
  define q :: rat where "q = of_int N / of_int n"
  have nq: "0 < (of_int n :: rat)" using n by simp
  have qh: "q + 1 / 2 = of_int (2 * N + n) / of_int (2 * n)"
    using nq by (simp add: q_def field_simps)
  have K1: "of_int K \<le> q + 1 / 2" and K2: "q + 1 / 2 < of_int K + 1"
    unfolding K_def q_def by linarith+
  have "of_int K * of_int (2 * n) \<le> (of_int (2 * N + n) :: rat)"
    using K1 nq unfolding qh by (simp add: field_simps)
  then have "(of_int (K * (2 * n)) :: rat) \<le> of_int (2 * N + n)" by simp
  then have i1: "K * (2 * n) \<le> 2 * N + n" by (simp only: of_int_le_iff)
  have "(of_int (2 * N + n) :: rat) < (of_int K + 1) * of_int (2 * n)"
    using K2 nq unfolding qh by (simp add: field_simps)
  then have "(of_int (2 * N + n) :: rat) < of_int ((K + 1) * (2 * n))" by simp
  then have i2: "2 * N + n < (K + 1) * (2 * n)" by (simp only: of_int_less_iff)
  have ne: "K * (2 * n) \<noteq> 2 * N + n"
  proof
    assume "K * (2 * n) = 2 * N + n"
    then have "2 * N = (K - 1) * (2 * n) + n" by (simp add: algebra_simps)
    then have "2 * N mod (2 * n) = n mod (2 * n)" by (metis mod_mult_self3)
    also have "n mod (2 * n) = n" using n by simp
    finally show False using notie by simp
  qed
  from i1 ne have j1: "K * (2 * n) + 1 \<le> 2 * N + n" by simp
  from i2 have j2: "2 * N + n + 1 \<le> (K + 1) * (2 * n)" by simp
  have qh': "q + 1 / 2 = of_int (2 * N + n) / (2 * of_int n)"
    using qh by simp
  have r1: "of_int K + 1 / (2 * of_int n) \<le> q + 1 / 2"
  proof -
    have "(of_int (K * (2 * n) + 1) :: rat) \<le> of_int (2 * N + n)"
      using j1 by (simp only: of_int_le_iff)
    then have "(of_int (K * (2 * n) + 1) :: rat) / (2 * of_int n) \<le>
               of_int (2 * N + n) / (2 * of_int n)"
      using nq by (intro divide_right_mono) simp_all
    also have "(of_int (K * (2 * n) + 1) :: rat) / (2 * of_int n) =
               of_int K + 1 / (2 * of_int n)"
      using nq by (simp add: add_divide_distrib)
    finally show ?thesis unfolding qh' .
  qed
  have r2: "q + 1 / 2 \<le> of_int K + 1 - 1 / (2 * of_int n)"
  proof -
    have "(of_int (2 * N + n) :: rat) \<le> of_int ((K + 1) * (2 * n) - 1)"
      using j2 by (simp only: of_int_le_iff)
    then have "(of_int (2 * N + n) :: rat) / (2 * of_int n) \<le>
               of_int ((K + 1) * (2 * n) - 1) / (2 * of_int n)"
      using nq by (intro divide_right_mono) simp_all
    also have "(of_int ((K + 1) * (2 * n) - 1) :: rat) / (2 * of_int n) =
               of_int K + 1 - 1 / (2 * of_int n)"
      using nq by (simp add: diff_divide_distrib add_divide_distrib algebra_simps)
    finally show ?thesis unfolding qh' .
  qed
  from close have "c - q < 1 / (2 * of_int n)" and "q - c < 1 / (2 * of_int n)"
    unfolding q_def by (simp_all add: abs_less_iff)
  with r1 r2 have "of_int K \<le> c + 1 / 2" and "c + 1 / 2 < of_int K + 1" by linarith+
  then have "\<lfloor>c + 1 / 2\<rfloor> = K" by linarith
  then show ?thesis by (simp add: K_def)
qed

lemma num_of_nat_exact: "int n < 2 ^ 53 \<Longrightarrow> num_of_nat n = Num (of_nat n)"
  using to_double_of_int [of "int n"] by (simp add: num_of_nat_def)

lemma num_of_int_exact: "\<bar>k\<bar> < 2 ^ 53 \<Longrightarrow> num_of_int k = Num (of_int k)"
  using to_double_of_int [of k] by (simp add: num_of_int_def)

lemma chain3_up:
  fixes x p a b c :: rat
  assumes "0 \<le> p" and "a \<le> x * p" and "b \<le> a * 100 * p" and "c \<le> b * 10 * p"
  shows "c \<le> 1000 * x * (p * p * p)"
proof -
  have "a * (100 * p) \<le> x * p * (100 * p)"
    using assms(1,2) by (intro mult_right_mono) simp_all
  moreover have "b \<le> a * (100 * p)" using assms(3) by (simp only: mult.assoc)
  ultimately have b: "b \<le> x * p * (100 * p)" by (rule order_trans [rotated])
  have "b * (10 * p) \<le> x * p * (100 * p) * (10 * p)"
    using assms(1) b by (intro mult_right_mono) simp_all
  moreover have "c \<le> b * (10 * p)" using assms(4) by (simp only: mult.assoc)
  ultimately have "c \<le> x * p * (100 * p) * (10 * p)" by (rule order_trans [rotated])
  also have "x * p * (100 * p) * (10 * p) = 1000 * x * (p * p * p)" by (simp add: algebra_simps)
  finally show ?thesis .
qed

lemma chain3_low:
  fixes x m a b c :: rat
  assumes "0 \<le> m" and "x * m \<le> a" and "a * 100 * m \<le> b" and "b * 10 * m \<le> c"
  shows "1000 * x * (m * m * m) \<le> c"
proof -
  have "x * m * (100 * m) \<le> a * (100 * m)"
    using assms(1,2) by (intro mult_right_mono) simp_all
  moreover have "a * (100 * m) \<le> b" using assms(3) by (simp only: mult.assoc)
  ultimately have b: "x * m * (100 * m) \<le> b" by (rule order_trans)
  have "x * m * (100 * m) * (10 * m) \<le> b * (10 * m)"
    using assms(1) b by (intro mult_right_mono) simp_all
  moreover have "b * (10 * m) \<le> c" using assms(4) by (simp only: mult.assoc)
  ultimately have "x * m * (100 * m) * (10 * m) \<le> c" by (rule order_trans)
  moreover have "x * m * (100 * m) * (10 * m) = 1000 * x * (m * m * m)"
    by (simp add: algebra_simps)
  ultimately show ?thesis by simp
qed

lemma cube_up: "1000 * ((1 + 1 / 2 ^ 53) * (1 + 1 / 2 ^ 53) * (1 + 1 / 2 ^ 53) - 1) < (1 / 2 ^ 33 :: rat)"
  by simp

lemma cube_low: "1000 * (1 - (1 - 1 / 2 ^ 53) * (1 - 1 / 2 ^ 53) * (1 - 1 / 2 ^ 53)) < (1 / 2 ^ 33 :: rat)"
  by simp

lemma close_half:
  fixes x y :: rat
  assumes "0 \<le> x" and "x * (1 - 1 / 2 ^ 53) \<le> y"
  shows "x * (1 / 2) \<le> y"
proof -
  have "x * (1 / 2) \<le> x * (1 - 1 / 2 ^ 53)" using assms(1) by (intro mult_left_mono) simp_all
  then show ?thesis using assms(2) by (rule order_trans)
qed

lemma close_double:
  fixes x y :: rat
  assumes "0 \<le> x" and "y \<le> x * (1 + 1 / 2 ^ 53)"
  shows "y \<le> x * 2"
proof -
  have "x * (1 + 1 / 2 ^ 53) \<le> x * 2" using assms(1) by (intro mult_left_mono) simp_all
  with assms(2) show ?thesis by (rule order_trans)
qed

lemma rate_product:
  fixes s n :: nat
  assumes s1: "1 \<le> s" and sn: "s \<le> n" and n32: "int n < 2 ^ 32"
  shows "\<exists>c. num_mult (num_mult (num_div (num_of_nat s) (num_of_nat n)) (Num 100)) (Num 10) = Num c \<and>
             \<bar>c - 1000 * (of_nat s / of_nat n)\<bar> < 1 / (2 * of_nat n)"
proof -
  define x :: rat where "x = of_nat s / of_nat n"
  define p :: rat where "p = 1 + 1 / 2 ^ 53"
  define m :: rat where "m = 1 - 1 / 2 ^ 53"
  have npos: "0 < (of_nat n :: rat)" using s1 sn by simp
  have nlt: "(of_nat n :: rat) < 2 ^ 32"
  proof -
    have "(of_int (int n) :: rat) < of_int (2 ^ 32)" using n32 by (simp only: of_int_less_iff)
    then show ?thesis by simp
  qed
  have x1: "x \<le> 1" using sn npos by (simp add: x_def)
  have "1 / (of_nat n :: rat) \<le> of_nat s / of_nat n"
    using s1 npos by (intro divide_right_mono) simp_all
  moreover have "1 / 2 ^ 32 \<le> 1 / (of_nat n :: rat)"
    using nlt npos by (intro divide_left_mono) simp_all
  ultimately have xlo: "1 / 2 ^ 32 \<le> x" unfolding x_def by (rule order_trans [rotated])
  have xpos: "0 \<le> x" using xlo by (rule order_trans [rotated]) simp
  have ns: "num_of_nat s = Num (of_nat s)" and nn: "num_of_nat n = Num (of_nat n)"
    using sn n32 by (simp_all add: num_of_nat_exact)
  have d: "num_div (num_of_nat s) (num_of_nat n) = to_double x"
    using npos by (simp add: ns nn x_def)
  have "1 / 2 ^ 40 \<le> x" using xlo by (rule order_trans [rotated]) simp
  moreover have "x \<le> 2 ^ 60" using x1 by (rule order_trans) simp
  ultimately obtain a where a: "to_double x = Num a" "x * m \<le> a" "a \<le> x * p"
    unfolding m_def p_def using to_double_close [of x] by blast
  have a_lo: "x * (1 / 2) \<le> a" using xpos a(2) unfolding m_def by (rule close_half)
  have a_hi: "a \<le> x * 2" using xpos a(3) unfolding p_def by (rule close_double)
  have apos: "0 \<le> a * 100" using a_lo xpos by simp
  have "1 / 2 ^ 40 \<le> a * 100" using a_lo xlo by simp
  moreover have "a * 100 \<le> 2 ^ 60" using a_hi x1 by simp
  ultimately obtain b where b: "to_double (a * 100) = Num b" "a * 100 * m \<le> b" "b \<le> a * 100 * p"
    unfolding m_def p_def using to_double_close [of "a * 100"] by blast
  have b_lo: "a * 100 * (1 / 2) \<le> b" using apos b(2) unfolding m_def by (rule close_half)
  have b_hi: "b \<le> a * 100 * 2" using apos b(3) unfolding p_def by (rule close_double)
  have "1 / 2 ^ 40 \<le> b * 10" using b_lo a_lo xlo by simp
  moreover have "b * 10 \<le> 2 ^ 60" using b_hi a_hi x1 by simp
  ultimately obtain c where c: "to_double (b * 10) = Num c" "b * 10 * m \<le> c" "c \<le> b * 10 * p"
    unfolding m_def p_def using to_double_close [of "b * 10"] by blast
  have run: "num_mult (num_mult (num_div (num_of_nat s) (num_of_nat n)) (Num 100)) (Num 10) = Num c"
    by (simp add: d a(1) b(1) c(1))
  have p0: "0 \<le> p" and m0: "0 \<le> m" by (simp_all add: p_def m_def)
  have up: "c \<le> 1000 * x * (p * p * p)" using p0 a(3) b(3) c(3) by (rule chain3_up)
  have low: "1000 * x * (m * m * m) \<le> c" using m0 a(2) b(2) c(2) by (rule chain3_low)
  have P: "0 \<le> p * p * p - 1" and Pb: "1000 * (p * p * p - 1) < 1 / 2 ^ 33"
    unfolding p_def using cube_up by simp_all
  have M: "0 \<le> 1 - m * m * m" and Mb: "1000 * (1 - m * m * m) < 1 / 2 ^ 33"
    unfolding m_def using cube_low by simp_all
  have "1000 * x * (p * p * p) - 1000 * x = x * (1000 * (p * p * p - 1))"
    by (simp add: algebra_simps)
  also have "\<dots> \<le> 1 * (1000 * (p * p * p - 1))"
    using x1 P by (intro mult_right_mono) simp_all
  finally have e1: "c - 1000 * x < 1 / 2 ^ 33" using up Pb by simp
  have "1000 * x - 1000 * x * (m * m * m) = x * (1000 * (1 - m * m * m))"
    by (simp add: algebra_simps)
  also have "\<dots> \<le> 1 * (1000 * (1 - m * m * m))"
    using x1 M by (intro mult_right_mono) simp_all
  finally have e2: "1000 * x - c < 1 / 2 ^ 33" using low Mb by simp
  have "(1 / 2 ^ 33 :: rat) \<le> 1 / (2 * of_nat n)"
    using nlt npos by (intro divide_left_mono) simp_all
  with e1 e2 have "\<bar>c - 1000 * x\<bar> < 1 / (2 * of_nat n)" by (simp add: abs_less_iff)
  with run show ?thesis unfolding x_def by blast
qed

lemma chain2_up:
  fixes x p a b :: rat
  assumes "0 \<le> p" and "a \<le> x * p" and "b \<le> a * 10 * p"
  shows "b \<le> 10 * x * (p * p)"
proof -
  have "a * (10 * p) \<le> x * p * (10 * p)"
    using assms(1,2) by (intro mult_right_mono) simp_all
  moreover have "b \<le> a * (10 * p)" using assms(3) by (simp only: mult.assoc)
  ultimately have "b \<le> x * p * (10 * p)" by (rule order_trans [rotated])
  also have "x * p * (10 * p) = 10 * x * (p * p)" by (simp add: algebra_simps)
  finally show ?thesis .
qed

lemma chain2_low:
  fixes x m a b :: rat
  assumes "0 \<le> m" and "x * m \<le> a" and "a * 10 * m \<le> b"
  shows "10 * x * (m * m) \<le> b"
proof -
  have "x * m * (10 * m) \<le> a * (10 * m)"
    using assms(1,2) by (intro mult_right_mono) simp_all
  moreover have "a * (10 * m) \<le> b" using assms(3) by (simp only: mult.assoc)
  ultimately have "x * m * (10 * m) \<le> b" by (rule order_trans)
  moreover have "x * m * (10 * m) = 10 * x * (m * m)" by (simp add: algebra_simps)
  ultimately show ?thesis by simp
qed

lemma square_up: "2 ^ 46 * (10 * ((1 + 1 / 2 ^ 53) * (1 + 1 / 2 ^ 53) - 1)) < (1 / 2 :: rat)"
  by simp

lemma square_low: "2 ^ 46 * (10 * (1 - (1 - 1 / 2 ^ 53) * (1 - 1 / 2 ^ 53))) < (1 / 2 :: rat)"
  by simp

lemma average_product:
  fixes T :: int and n :: nat
  assumes T1: "1 \<le> T" and T46: "T < 2 ^ 46" and n1: "1 \<le> n" and n32: "int n < 2 ^ 32"
  shows "\<exists>b. num_mult (num_div (Num (of_int T)) (num_of_nat n)) (Num 10) = Num b \<and>
             \<bar>b - 10 * (of_int T / of_nat n)\<bar> < 1 / (2 * of_nat n)"
proof -
  define x :: rat where "x = of_int T / of_nat n"
  define p :: rat where "p = 1 + 1 / 2 ^ 53"
  define m :: rat where "m = 1 - 1 / 2 ^ 53"
  define t :: rat where "t = of_int T"
  have npos: "0 < (of_nat n :: rat)" and nge: "1 \<le> (of_nat n :: rat)" using n1 by simp_all
  have nlt: "(of_nat n :: rat) < 2 ^ 32"
  proof -
    have "(of_int (int n) :: rat) < of_int (2 ^ 32)" using n32 by (simp only: of_int_less_iff)
    then show ?thesis by simp
  qed
  have t1: "1 \<le> t"
  proof -
    have "(of_int 1 :: rat) \<le> of_int T" using T1 by (simp only: of_int_le_iff)
    then show ?thesis by (simp add: t_def)
  qed
  have t46: "t \<le> 2 ^ 46"
  proof -
    have "(of_int T :: rat) < of_int (2 ^ 46)" using T46 by (simp only: of_int_less_iff)
    then show ?thesis by (simp add: t_def)
  qed
  have xt: "x = t / of_nat n" by (simp add: x_def t_def)
  have "t / of_nat n \<le> t / 1" using nge t1 by (intro divide_left_mono) simp_all
  then have xhi: "x \<le> 2 ^ 46" using t46 unfolding xt by simp
  have "1 / (of_nat n :: rat) \<le> t / of_nat n"
    using t1 npos by (intro divide_right_mono) simp_all
  moreover have "1 / 2 ^ 32 \<le> 1 / (of_nat n :: rat)"
    using nlt npos by (intro divide_left_mono) simp_all
  ultimately have xlo: "1 / 2 ^ 32 \<le> x" unfolding xt by (rule order_trans [rotated])
  have xpos: "0 \<le> x" using xlo by (rule order_trans [rotated]) simp
  have nn: "num_of_nat n = Num (of_nat n)" using n32 by (simp add: num_of_nat_exact)
  have d: "num_div (Num (of_int T)) (num_of_nat n) = to_double x"
    using npos by (simp add: nn x_def)
  have "1 / 2 ^ 40 \<le> x" using xlo by (rule order_trans [rotated]) simp
  moreover have "x \<le> 2 ^ 60" using xhi by (rule order_trans) simp
  ultimately obtain a where a: "to_double x = Num a" "x * m \<le> a" "a \<le> x * p"
    unfolding m_def p_def using to_double_close [of x] by blast
  have a_lo: "x * (1 / 2) \<le> a" using xpos a(2) unfolding m_def by (rule close_half)
  have a_hi: "a \<le> x * 2" using xpos a(3) unfolding p_def by (rule close_double)
  have "1 / 2 ^ 40 \<le> a * 10" using a_lo xlo by simp
  moreover have "a * 10 \<le> 2 ^ 60" using a_hi xhi by simp
  ultimately obtain b where b: "to_double (a * 10) = Num b" "a * 10 * m \<le> b" "b \<le> a * 10 * p"
    unfolding m_def p_def using to_double_close [of "a * 10"] by blast
  have run: "num_mult (num_div (Num (of_int T)) (num_of_nat n)) (Num 10) = Num b"
    by (simp add: d a(1) b(1))
  have p0: "0 \<le> p" and m0: "0 \<le> m" by (simp_all add: p_def m_def)
  have up: "b \<le> 10 * x * (p * p)" using p0 a(3) b(3) by (rule chain2_up)
  have low: "10 * x * (m * m) \<le> b" using m0 a(2) b(2) by (rule chain2_low)
  have P: "0 \<le> 10 * (p * p - 1)" and Pb: "2 ^ 46 * (10 * (p * p - 1)) < 1 / 2"
    unfolding p_def using square_up by simp_all
  have M: "0 \<le> 10 * (1 - m * m)" and Mb: "2 ^ 46 * (10 * (1 - m * m)) < 1 / 2"
    unfolding m_def using square_low by simp_all
  have half: "\<And>k :: rat. 0 \<le> k \<Longrightarrow> 2 ^ 46 * k < 1 / 2 \<Longrightarrow> x * k < 1 / (2 * of_nat n)"
  proof -
    fix k :: rat
    assume k0: "0 \<le> k" and kb: "2 ^ 46 * k < 1 / 2"
    have "t * k \<le> 2 ^ 46 * k" using t46 k0 by (intro mult_right_mono) simp_all
    with kb have "t * k < 1 / 2" by simp
    then have "t * k / of_nat n < 1 / 2 / of_nat n"
      using npos by (intro divide_strict_right_mono) simp_all
    then show "x * k < 1 / (2 * of_nat n)" unfolding xt by simp
  qed
  have "10 * x * (p * p) - 10 * x = x * (10 * (p * p - 1))" by (simp add: algebra_simps)
  with half [OF P Pb] up have e1: "b - 10 * x < 1 / (2 * of_nat n)" by simp
  have "10 * x - 10 * x * (m * m) = x * (10 * (1 - m * m))" by (simp add: algebra_simps)
  with half [OF M Mb] low have e2: "10 * x - b < 1 / (2 * of_nat n)" by simp
  from e1 e2 have "\<bar>b - 10 * x\<bar> < 1 / (2 * of_nat n)" by (simp add: abs_less_iff)
  with run show ?thesis unfolding x_def by blast
qed

text \<open>A double is known from its exponent and its significand.\<close>

lemma exponent_unique:
  assumes lo: "power_int 2 e \<le> \<bar>x\<bar>" and hi: "\<bar>x\<bar> < power_int 2 (e + 1)"
  shows "exponent x = e"
proof -
  have "(0 :: rat) < power_int 2 e" by simp
  with lo have "0 < \<bar>x\<bar>" by linarith
  then have nz: "x \<noteq> 0" by simp
  from exponent_bounds [OF nz] lo hi
  have a: "(power_int 2 (exponent x) :: rat) < power_int 2 (e + 1)"
    and b: "(power_int 2 e :: rat) < power_int 2 (exponent x + 1)"
    by linarith+
  have "exponent x < e + 1" using a by (rule power_int_2_lessD)
  moreover have "e < exponent x + 1" using b by (rule power_int_2_lessD)
  ultimately show ?thesis by simp
qed

lemma round_ties_even_unique:
  assumes "\<bar>q - of_int k\<bar> < 1 / 2"
  shows "round_ties_even q = k"
proof (cases "of_int k \<le> q")
  case True
  with assms have f: "\<lfloor>q\<rfloor> = k" by linarith
  with assms True show ?thesis by (simp add: round_ties_even_def Let_def)
next
  case False
  with assms have f: "\<lfloor>q\<rfloor> = k - 1" by linarith
  with assms False show ?thesis by (simp add: round_ties_even_def Let_def)
qed

lemma to_double_eqI:
  fixes x :: rat and k e :: int
  assumes lo: "power_int 2 e \<le> x" and hi: "x < power_int 2 (e + 1)"
    and e1: "- 1022 \<le> e" and e2: "e \<le> 1022"
    and close: "\<bar>x / power_int 2 (e - 52) - of_int k\<bar> < 1 / 2"
  shows "to_double x = Num (of_int k * power_int 2 (e - 52))"
proof -
  define u :: rat where "u = power_int 2 (e - 52)"
  have upos: "0 < u" by (simp add: u_def)
  have "(0 :: rat) < power_int 2 e" by simp
  with lo have xpos: "0 < x" by linarith
  have ex: "exponent x = e" using lo hi xpos by (intro exponent_unique) simp_all
  have r: "round_ties_even (x / u) = k" using close unfolding u_def by (rule round_ties_even_unique)
  have fr: "fround x = of_int k * u"
    using xpos e1 by (simp add: fround_def Let_def ex u_def [symmetric] r)
  have "0 < x / u" using xpos upos by simp
  with close have "- 1 < (of_int k :: rat)" unfolding u_def [symmetric] by linarith
  then have "(of_int (- 1) :: rat) < of_int k" by simp
  then have "- 1 < k" by (simp only: of_int_less_iff)
  then have k0: "0 \<le> (of_int k :: rat)" by simp
  have "of_int k < x / u + 1 / 2" using close unfolding u_def [symmetric] by linarith
  then have "of_int k * u < (x / u + 1 / 2) * u" using upos by (simp only: mult_strict_right_mono)
  also have "(x / u + 1 / 2) * u = x + u / 2" using upos by (simp add: algebra_simps)
  finally have "of_int k * u < x + u / 2" .
  moreover have "u \<le> power_int 2 (e + 1)" unfolding u_def by (rule power_int_increasing) simp_all
  ultimately have "of_int k * u < 2 * power_int 2 (e + 1)" using hi upos by linarith
  also have "2 * (power_int 2 (e + 1) :: rat) = power_int 2 (e + 2)"
    by (simp add: power_int_add)
  also have "(power_int 2 (e + 2) :: rat) \<le> power_int 2 1024"
    using e2 by (intro power_int_increasing) simp_all
  finally have "of_int k * u < power_int 2 1024" .
  moreover have "0 \<le> of_int k * u" using k0 upos by simp
  ultimately have "\<not> (power_int 2 1024 \<le> \<bar>of_int k * u\<bar>)" by simp
  then show ?thesis unfolding to_double_def Let_def fr u_def [symmetric] by simp
qed

section \<open>Properties of the summary\<close>

text \<open>The two functions that \<^verbatim>\<open>calculateSummary\<close> applies to an element: whether it counts
  as a success, and the time it adds to the total. A hole counts for neither.\<close>

definition row_succeeded :: "ProcessedRow option \<Rightarrow> bool" where
  "row_succeeded r = (case r of None \<Rightarrow> False | Some p \<Rightarrow> success p)"

definition row_time :: "ProcessedRow option \<Rightarrow> int" where
  "row_time r = (case r of None \<Rightarrow> 0 | Some p \<Rightarrow> processingTime p)"

text \<open>The quotient \<open>N / n\<close> lies exactly half-way between two integers.\<close>

definition half_way :: "int \<Rightarrow> nat \<Rightarrow> bool" where
  "half_way N n = (2 * N mod (2 * int n) = int n)"

lemma row_succeeded_eq: "case_option False success = row_succeeded"
  by (rule ext) (simp add: row_succeeded_def)

text \<open>The sum of processing times is exact as long as it stays below \<open>2\<^sup>5\<^sup>3\<close>.\<close>

lemma foldl_total_exact:
  assumes "list_all (\<lambda>r. 0 \<le> row_time r) results"
    and "0 \<le> a"
    and "a + sum_list (map row_time results) < 2 ^ 53"
  shows "foldl (\<lambda>sum r. case r of None \<Rightarrow> sum
                        | Some p \<Rightarrow> num_plus sum (num_of_int (processingTime p)))
           (Num (of_int a)) results =
         Num (of_int (a + sum_list (map row_time results)))"
  using assms
proof (induction results arbitrary: a)
  case Nil
  then show ?case by simp
next
  case (Cons r rs)
  have rest: "0 \<le> sum_list (map row_time rs)"
    using Cons.prems(1) by (intro sum_list_nonneg) (auto simp: list_all_iff)
  show ?case
  proof (cases r)
    case None
    with Cons show ?thesis by (simp add: row_time_def)
  next
    case (Some p)
    have t0: "0 \<le> processingTime p" using Cons.prems(1) Some by (simp add: row_time_def)
    have t: "row_time r = processingTime p" using Some by (simp add: row_time_def)
    have b1: "\<bar>processingTime p\<bar> < 2 ^ 53" using t0 rest Cons.prems(2,3) t by simp
    have b2: "\<bar>a + processingTime p\<bar> < 2 ^ 53" using t0 rest Cons.prems(2,3) t by simp
    have step: "num_plus (Num (of_int a)) (num_of_int (processingTime p)) =
                Num (of_int (a + processingTime p))"
      using to_double_of_int [OF b2] by (simp add: num_of_int_exact [OF b1])
    have "foldl (\<lambda>sum r. case r of None \<Rightarrow> sum
                        | Some p \<Rightarrow> num_plus sum (num_of_int (processingTime p)))
           (Num (of_int (a + processingTime p))) rs =
         Num (of_int (a + processingTime p + sum_list (map row_time rs)))"
      using Cons.prems t0 t by (intro Cons.IH) simp_all
    then show ?thesis using Some step t by (simp add: add.assoc)
  qed
qed

lemma rate_value:
  fixes s n :: nat
  assumes n1: "1 \<le> n" and sn: "s \<le> n" and n32: "int n < 2 ^ 32"
    and notie: "\<not> half_way (1000 * int s) n"
  shows "num_div
           (Math_round
              (num_mult (num_mult (num_div (num_of_nat s) (num_of_nat n)) (Num 100)) (Num 10)))
           (Num 10) =
         to_double (of_int (round_half_up (of_nat s / of_nat n * 1000)) / 10)"
proof (cases "s = 0")
  case True
  have nn: "num_of_nat n = Num (of_nat n)" using n32 by (simp add: num_of_nat_exact)
  have n0: "(of_nat n :: rat) \<noteq> 0" using n1 by simp
  have r0: "round_half_up 0 = 0" unfolding round_half_up_def by linarith
  have z: "num_of_nat 0 = Num 0" by (simp add: num_of_nat_def to_double_0)
  show ?thesis using True n0 by (simp add: nn z to_double_0 r0)
next
  case False
  then have s1: "1 \<le> s" by simp
  from rate_product [OF s1 sn n32] obtain c where
    c: "num_mult (num_mult (num_div (num_of_nat s) (num_of_nat n)) (Num 100)) (Num 10) = Num c"
    and close: "\<bar>c - 1000 * (of_nat s / of_nat n)\<bar> < 1 / (2 * of_nat n)"
    by blast
  have q: "1000 * (of_nat s / of_nat n :: rat) = of_int (1000 * int s) / of_int (int n)"
    by simp
  have npos: "0 < int n" using n1 by simp
  have nt: "2 * (1000 * int s) mod (2 * int n) \<noteq> int n"
    using notie by (simp add: half_way_def)
  have close': "\<bar>c - of_int (1000 * int s) / of_int (int n)\<bar> < 1 / (2 * of_int (int n))"
    using close unfolding q by simp
  have "\<lfloor>c + 1 / 2\<rfloor> = \<lfloor>of_int (1000 * int s) / of_int (int n) + 1 / 2 :: rat\<rfloor>"
    using npos nt close' by (rule round_stable)
  then have "round_half_up c = round_half_up (1000 * (of_nat s / of_nat n))"
    unfolding round_half_up_def q .
  also have "1000 * (of_nat s / of_nat n :: rat) = of_nat s / of_nat n * 1000" by simp
  finally have r: "round_half_up c = round_half_up (of_nat s / of_nat n * 1000)" .
  show ?thesis by (simp add: c r)
qed

lemma average_value:
  fixes T :: int and n :: nat
  assumes n1: "1 \<le> n" and n32: "int n < 2 ^ 32" and T0: "0 \<le> T" and T46: "T < 2 ^ 46"
    and notie: "\<not> half_way (10 * T) n"
  shows "num_div (Math_round (num_mult (num_div (Num (of_int T)) (num_of_nat n)) (Num 10)))
           (Num 10) =
         to_double (of_int (round_half_up (of_int T / of_nat n * 10)) / 10)"
proof (cases "T = 0")
  case True
  have nn: "num_of_nat n = Num (of_nat n)" using n32 by (simp add: num_of_nat_exact)
  have n0: "(of_nat n :: rat) \<noteq> 0" using n1 by simp
  have r0: "round_half_up 0 = 0" unfolding round_half_up_def by linarith
  show ?thesis using True n0 by (simp add: nn to_double_0 r0)
next
  case False
  then have T1: "1 \<le> T" using T0 by simp
  from average_product [OF T1 T46 n1 n32] obtain b where
    b: "num_mult (num_div (Num (of_int T)) (num_of_nat n)) (Num 10) = Num b"
    and close: "\<bar>b - 10 * (of_int T / of_nat n)\<bar> < 1 / (2 * of_nat n)"
    by blast
  have q: "10 * (of_int T / of_nat n :: rat) = of_int (10 * T) / of_int (int n)"
    by simp
  have npos: "0 < int n" using n1 by simp
  have nt: "2 * (10 * T) mod (2 * int n) \<noteq> int n"
    using notie by (simp add: half_way_def)
  have close': "\<bar>b - of_int (10 * T) / of_int (int n)\<bar> < 1 / (2 * of_int (int n))"
    using close unfolding q by simp
  have "\<lfloor>b + 1 / 2\<rfloor> = \<lfloor>of_int (10 * T) / of_int (int n) + 1 / 2 :: rat\<rfloor>"
    using npos nt close' by (rule round_stable)
  then have "round_half_up b = round_half_up (10 * (of_int T / of_nat n))"
    unfolding round_half_up_def q .
  also have "10 * (of_int T / of_nat n :: rat) = of_int T / of_nat n * 10" by simp
  finally have r: "round_half_up b = round_half_up (of_int T / of_nat n * 10)" .
  show ?thesis by (simp add: b r)
qed

text \<open>Ten outcomes, seven of them successes; eighty outcomes, twenty-three of them
  successes.\<close>

definition ok_row :: "nat \<Rightarrow> ProcessedRow" where
  "ok_row n = \<lparr>rowNumber = n, success = True, statusCode = Some 200, processingTime = 12,
     url = None, parametersCount = 0, responseSize = Some 0, error = None, data = Some []\<rparr>"

definition bad_row :: "nat \<Rightarrow> ProcessedRow" where
  "bad_row n = \<lparr>rowNumber = n, success = False, statusCode = None, processingTime = 25,
     url = None, parametersCount = 0, responseSize = None, error = Some ''Request timeout'',
     data = Some []\<rparr>"

definition ten_rows :: "ProcessedRow option list" where
  "ten_rows = map (\<lambda>n. Some (ok_row n)) [1, 2, 3, 4, 5, 6, 7] @ map (\<lambda>n. Some (bad_row n)) [8, 9, 10]"

definition eighty_rows :: "ProcessedRow option list" where
  "eighty_rows = map (\<lambda>n. Some (ok_row n)) [1..<24] @ map (\<lambda>n. Some (bad_row n)) [24..<81]"

lemma eighty_rows_counts:
  "length eighty_rows = 80 \<and> length (filter row_succeeded eighty_rows) = 23"
  by (simp add: eighty_rows_def row_succeeded_def ok_row_def bad_row_def)

text \<open>The doubles met on the way from 23 successes among 80 outcomes to the success
  rate, and the doubles nearest to 28.7 and to 28.8.\<close>

lemma quotient_23_80:
  "num_div (Num 23) (Num 80) = Num (2589569785738035 / 9007199254740992)"
  using to_double_eqI [of "- 2" "23 / 80" 5179139571476070] by simp

lemma times_100:
  "num_mult (Num (2589569785738035 / 9007199254740992)) (Num 100) =
     Num (8092405580431359 / 281474976710656)"
  using to_double_eqI [of 4 "2589569785738035 / 9007199254740992 * 100" 8092405580431359]
  by simp

lemma times_10:
  "num_mult (Num (8092405580431359 / 281474976710656)) (Num 10) =
     Num (5057753487769599 / 17592186044416)"
  using to_double_eqI [of 8 "8092405580431359 / 281474976710656 * 10" 5057753487769599]
  by simp

lemma round_below_half:
  "Math_round (Num (5057753487769599 / 17592186044416)) = Num 287"
proof -
  have "round_half_up (5057753487769599 / 17592186044416) = 287"
    unfolding round_half_up_def by simp linarith
  then show ?thesis by simp
qed

lemma double_287_tenths: "to_double (287 / 10) = Num (8078331831595827 / 281474976710656)"
  using to_double_eqI [of 4 "287 / 10" 8078331831595827] by simp

lemma double_288_tenths: "to_double (288 / 10) = Num (8106479329266893 / 281474976710656)"
  using to_double_eqI [of 4 "288 / 10" 8106479329266893] by simp

lemma rate_23_of_80:
  "num_div
     (Math_round
        (num_mult (num_mult (num_div (num_of_nat 23) (num_of_nat 80)) (Num 100)) (Num 10)))
     (Num 10) = to_double (287 / 10)"
proof -
  have n23: "num_of_nat 23 = Num 23" and n80: "num_of_nat 80 = Num 80"
    using num_of_nat_exact [of 23] num_of_nat_exact [of 80] by simp_all
  have "num_div (Num 287) (Num 10) = to_double (287 / 10)" by simp
  then show ?thesis
    by (simp only: n23 n80 quotient_23_80 times_100 times_10 round_below_half)
qed

lemma claimed_rate_23_of_80:
  "num_div (Math_round (num_mult (num_div (num_of_nat 23) (num_of_nat 80)) (Num 1000))) (Num 10) =
     to_double (288 / 10)"
proof -
  have n23: "num_of_nat 23 = Num 23" and n80: "num_of_nat 80 = Num 80"
    using num_of_nat_exact [of 23] num_of_nat_exact [of 80] by simp_all
  have m: "num_mult (Num (2589569785738035 / 9007199254740992)) (Num 1000) = Num (575 / 2)"
    using to_double_eqI [of 8 "2589569785738035 / 9007199254740992 * 1000" 5057753487769600]
    by simp
  have "round_half_up (575 / 2) = 288" unfolding round_half_up_def by simp
  then have r: "Math_round (Num (575 / 2)) = Num 288" by simp
  have "num_div (Num 288) (Num 10) = to_double (288 / 10)" by simp
  then show ?thesis by (simp only: n23 n80 quotient_23_80 m r)
qed

text \<open>
  C7, as stated, fails. With 23 successes among 80 outcomes the quotient times 1000 is
  287.5, which rounds to 288, so the formula of the claim gives 28.8, whether it is read
  over the rationals or as operations on doubles. The code multiplies by 100 and then by
  10: the quotient is the double just below 0.2875, the product stays below 287.5 and
  rounds to 287, and the success rate is 28.7.
\<close>

theorem tie_rate_counterexample:
  "eighty_rows \<noteq> [] \<and> length eighty_rows = 80 \<and>
   length (filter row_succeeded eighty_rows) = 23 \<and>
   successRate (calculateSummary eighty_rows) = to_double (287 / 10) \<and>
   to_double (of_int (round_half_up (of_nat 23 / of_nat 80 * 1000)) / 10) = to_double (288 / 10) \<and>
   num_div (Math_round (num_mult (num_div (num_of_nat 23) (num_of_nat 80)) (Num 1000))) (Num 10) =
     to_double (288 / 10) \<and>
   to_double (287 / 10) \<noteq> to_double (288 / 10)"
proof -
  have r: "round_half_up (of_nat 23 / of_nat 80 * 1000) = 288"
    unfolding round_half_up_def by simp
  have "successRate (calculateSummary eighty_rows) =
          num_div
            (Math_round
               (num_mult (num_mult (num_div (num_of_nat 23) (num_of_nat 80)) (Num 100)) (Num 10)))
            (Num 10)"
    using eighty_rows_counts by (simp add: calculateSummary_def Let_def row_succeeded_eq)
  then have a: "successRate (calculateSummary eighty_rows) = to_double (287 / 10)"
    by (simp only: rate_23_of_80)
  have b: "to_double (of_int (round_half_up (of_nat 23 / of_nat 80 * 1000)) / 10) =
           to_double (288 / 10)"
    unfolding r by simp
  have c: "to_double (287 / 10) \<noteq> to_double (288 / 10)"
    by (simp only: double_287_tenths double_288_tenths) simp
  have d: "num_div (Math_round (num_mult (num_div (num_of_nat 23) (num_of_nat 80)) (Num 1000)))
             (Num 10) = to_double (288 / 10)"
    by (rule claimed_rate_23_of_80)
  have e: "eighty_rows \<noteq> []" using eighty_rows_counts by auto
  from a b c d e eighty_rows_counts show ?thesis by blast
qed

text \<open>
  C7, amended. For a non-empty list of fewer than \<open>2\<^sup>3\<^sup>2\<close> outcomes (every JavaScript
  array is that short), \<open>totalRows\<close> is its length and \<open>successfulRequests\<close> the number of
  its successes. The success rate is
  \<open>round(successfulRequests / totalRows * 100 * 10) / 10\<close>, every operation being an
  operation on doubles; it is the double nearest to
  \<open>round(successfulRequests / totalRows * 1000) / 10\<close>, read over the rationals, whenever
  \<open>successfulRequests * 1000 / totalRows\<close> is not exactly half-way between two integers.
  When the processing times are not negative and their sum is below \<open>2\<^sup>5\<^sup>3\<close>, the average
  processing time is \<open>round(sum(processingTime) / totalRows * 10) / 10\<close>, every operation
  being an operation on doubles and the sum exact; when the sum is below \<open>2\<^sup>4\<^sup>6\<close> and
  \<open>sum * 10 / totalRows\<close> is not exactly half-way between two integers, it is the double
  nearest to that formula read over the rationals. With 7 successes among 10 outcomes the
  success rate is 70. Here \<open>round\<close> is \<^verbatim>\<open>Math.round\<close>.
\<close>

theorem calculateSummary_rates_off_ties:
  assumes "results \<noteq> []" and "int (length results) < 2 ^ 32"
  shows "totalRows (calculateSummary results) = length results \<and>
         successfulRequests (calculateSummary results) = length (filter row_succeeded results) \<and>
         successRate (calculateSummary results) =
           num_div
             (Math_round
                (num_mult
                   (num_mult
                      (num_div (Num (of_nat (length (filter row_succeeded results))))
                         (Num (of_nat (length results))))
                      (Num 100))
                   (Num 10)))
             (Num 10) \<and>
         (\<not> half_way (1000 * int (length (filter row_succeeded results))) (length results) \<longrightarrow>
            successRate (calculateSummary results) =
              to_double (of_int (round_half_up
                 (of_nat (length (filter row_succeeded results)) / of_nat (length results) * 1000)) / 10)) \<and>
         (list_all (\<lambda>r. 0 \<le> row_time r) results \<and> sum_list (map row_time results) < 2 ^ 53 \<longrightarrow>
            averageProcessingTime (calculateSummary results) =
              num_div
                (Math_round
                   (num_mult
                      (num_div (Num (of_int (sum_list (map row_time results))))
                         (Num (of_nat (length results))))
                      (Num 10)))
                (Num 10)) \<and>
         (list_all (\<lambda>r. 0 \<le> row_time r) results \<and> sum_list (map row_time results) < 2 ^ 46 \<and>
          \<not> half_way (10 * sum_list (map row_time results)) (length results) \<longrightarrow>
            averageProcessingTime (calculateSummary results) =
              to_double (of_int (round_half_up
                 (of_int (sum_list (map row_time results)) / of_nat (length results) * 10)) / 10)) \<and>
         (length (filter row_succeeded results) = 7 \<and> length results = 10 \<longrightarrow>
            successRate (calculateSummary results) = Num 70)"
proof -
  define n where "n = length results"
  define s where "s = length (filter row_succeeded results)"
  define T where "T = sum_list (map row_time results)"
  have n1: "1 \<le> n" using assms(1) by (cases results) (simp_all add: n_def)
  have n32: "int n < 2 ^ 32" using assms(2) by (simp add: n_def)
  have sn: "s \<le> n" by (simp add: s_def n_def)
  have nn: "num_of_nat n = Num (of_nat n)" using n32 by (intro num_of_nat_exact) simp
  have ns: "num_of_nat s = Num (of_nat s)" using n32 sn by (intro num_of_nat_exact) simp
  have tr: "totalRows (calculateSummary results) = n"
    and sr: "successfulRequests (calculateSummary results) = s"
    by (simp_all add: calculateSummary_def Let_def row_succeeded_eq n_def s_def)
  have rate_code: "successRate (calculateSummary results) =
          num_div
            (Math_round
               (num_mult (num_mult (num_div (num_of_nat s) (num_of_nat n)) (Num 100)) (Num 10)))
            (Num 10)"
    by (simp add: calculateSummary_def Let_def row_succeeded_eq n_def s_def)
  have rate_doubles: "successRate (calculateSummary results) =
          num_div
            (Math_round
               (num_mult (num_mult (num_div (Num (of_nat s)) (Num (of_nat n))) (Num 100))
                  (Num 10)))
            (Num 10)"
    using rate_code unfolding nn ns .
  have rate: "\<not> half_way (1000 * int s) n \<longrightarrow>
            successRate (calculateSummary results) =
              to_double (of_int (round_half_up (of_nat s / of_nat n * 1000)) / 10)"
    using rate_value [OF n1 sn n32] rate_code by simp
  have avg_code: "averageProcessingTime (calculateSummary results) =
            num_div (Math_round (num_mult (num_div (Num (of_int T)) (num_of_nat n)) (Num 10)))
              (Num 10)"
    if nonneg: "list_all (\<lambda>r. 0 \<le> row_time r) results" and T53: "T < 2 ^ 53"
  proof -
    have "0 + T < 2 ^ 53" using T53 by simp
    with foldl_total_exact [OF nonneg order_refl, folded T_def]
    have total: "foldl (\<lambda>sum r. case r of None \<Rightarrow> sum
                        | Some p \<Rightarrow> num_plus sum (num_of_int (processingTime p)))
           (Num 0) results = Num (of_int T)"
      by simp
    show ?thesis by (simp add: calculateSummary_def Let_def total n_def)
  qed
  have avg_doubles: "list_all (\<lambda>r. 0 \<le> row_time r) results \<and> T < 2 ^ 53 \<longrightarrow>
            averageProcessingTime (calculateSummary results) =
              num_div (Math_round (num_mult (num_div (Num (of_int T)) (Num (of_nat n))) (Num 10)))
                (Num 10)"
    using avg_code unfolding nn by blast
  have avg: "list_all (\<lambda>r. 0 \<le> row_time r) results \<and> T < 2 ^ 46 \<and> \<not> half_way (10 * T) n \<longrightarrow>
            averageProcessingTime (calculateSummary results) =
              to_double (of_int (round_half_up (of_int T / of_nat n * 10)) / 10)"
  proof (intro impI, elim conjE)
    assume nonneg: "list_all (\<lambda>r. 0 \<le> row_time r) results"
      and T46: "T < 2 ^ 46" and notie: "\<not> half_way (10 * T) n"
    have T0: "0 \<le> T"
      unfolding T_def using nonneg by (intro sum_list_nonneg) (auto simp: list_all_iff)
    have "T < 2 ^ 53" using T46 by simp
    from avg_code [OF nonneg this] average_value [OF n1 n32 T0 T46 notie]
    show "averageProcessingTime (calculateSummary results) =
              to_double (of_int (round_half_up (of_int T / of_nat n * 10)) / 10)"
      by simp
  qed
  have seventy: "s = 7 \<and> n = 10 \<longrightarrow> successRate (calculateSummary results) = Num 70"
  proof (intro impI, elim conjE)
    assume s7: "s = 7" and n10: "n = 10"
    have nt: "\<not> half_way (1000 * int s) n" by (simp add: s7 n10 half_way_def)
    have r: "round_half_up (of_nat s / of_nat n * 1000) = 700"
      unfolding round_half_up_def s7 n10 by simp linarith
    have "to_double (of_int 70) = Num (of_int 70)" by (rule to_double_of_int) simp
    then have "to_double 70 = Num 70" by simp
    with rate nt r show "successRate (calculateSummary results) = Num 70" by simp
  qed
  from tr sr rate_doubles rate avg_doubles avg seventy show ?thesis
    unfolding n_def s_def T_def by blast
qed

theorem calculateSummary_rates_off_ties_witness:
  "ten_rows \<noteq> [] \<and> int (length ten_rows) < 2 ^ 32 \<and>
   length (filter row_succeeded ten_rows) = 7 \<and> length ten_rows = 10 \<and>
   \<not> half_way (1000 * int (length (filter row_succeeded ten_rows))) (length ten_rows) \<and>
   list_all (\<lambda>r. 0 \<le> row_time r) ten_rows \<and> sum_list (map row_time ten_rows) = 159 \<and>
   \<not> half_way (10 * sum_list (map row_time ten_rows)) (length ten_rows) \<and>
   successRate (calculateSummary ten_rows) = Num 70 \<and>
   averageProcessingTime (calculateSummary ten_rows) = to_double (159 / 10)"
proof -
  have ne: "ten_rows \<noteq> []" by (simp add: ten_rows_def)
  have c: "length (filter row_succeeded ten_rows) = 7"
    by (simp add: ten_rows_def row_succeeded_def ok_row_def bad_row_def)
  have l: "length ten_rows = 10" by (simp add: ten_rows_def)
  have l32: "int (length ten_rows) < 2 ^ 32" by (simp add: l)
  have t: "sum_list (map row_time ten_rows) = 159"
    by (simp add: ten_rows_def row_time_def ok_row_def bad_row_def)
  have p: "list_all (\<lambda>r. 0 \<le> row_time r) ten_rows"
    by (simp add: ten_rows_def row_time_def ok_row_def bad_row_def)
  have h1: "\<not> half_way (1000 * int (length (filter row_succeeded ten_rows))) (length ten_rows)"
    by (simp add: c l half_way_def)
  have h2: "\<not> half_way (10 * sum_list (map row_time ten_rows)) (length ten_rows)"
    by (simp add: t l half_way_def)
  have r: "round_half_up (159 / 10 * 10) = 159" unfolding round_half_up_def by simp linarith
  from calculateSummary_rates_off_ties [OF ne l32]
  have "successRate (calculateSummary ten_rows) = Num 70"
    and "list_all (\<lambda>r. 0 \<le> row_time r) ten_rows \<and> sum_list (map row_time ten_rows) < 2 ^ 46 \<and>
          \<not> half_way (10 * sum_list (map row_time ten_rows)) (length ten_rows) \<longrightarrow>
            averageProcessingTime (calculateSummary ten_rows) =
              to_double (of_int (round_half_up
                 (of_int (sum_list (map row_time ten_rows)) / of_nat (length ten_rows) * 10)) / 10)"
    using c l by blast+
  then have "successRate (calculateSummary ten_rows) = Num 70"
    and "averageProcessingTime (calculateSummary ten_rows) = to_double (159 / 10)"
    using p h2 t l r by simp_all
  with ne l32 c l h1 p t h2 show ?thesis by (intro conjI)
qed

text \<open>
  C8, as stated, fails: on the empty list \<^verbatim>\<open>calculateSummary\<close> returns a summary, whose
  rates are \<^verbatim>\<open>NaN\<close> (zero divided by zero); it throws nothing.
\<close>

theorem empty_summary_counterexample:
  "calculateSummary [] =
     \<lparr>totalRows = 0, successfulRequests = 0, failedRequests = 0, successRate = NaN,
      totalProcessingTime = Num 0, averageProcessingTime = NaN, averageResponseTime = NaN\<rparr>"
proof -
  have "round_half_up 0 = 0" unfolding round_half_up_def by linarith
  then show ?thesis by (simp add: calculateSummary_def num_of_nat_def to_double_0)
qed

text \<open>
  C8, amended. The aggregator has no guard of its own: on the empty list it returns a
  summary with zero counts and \<^verbatim>\<open>NaN\<close> rates. The guard is in \<^verbatim>\<open>execute\<close>: when ingestion
  gives no rows, the job fails with \<^verbatim>\<open>No valid data rows found in CSV\<close> before any request
  is sent, and the aggregator is not called.
\<close>

theorem empty_results_guarded:
  "calculateSummary [] =
     \<lparr>totalRows = 0, successfulRequests = 0, failedRequests = 0, successRate = NaN,
      totalProcessingTime = Num 0, averageProcessingTime = NaN, averageResponseTime = NaN\<rparr> \<and>
   ((p_operation p = None \<or> p_operation p = Some Submit) \<and>
    parseCsvData (case p_csvData p of None \<Rightarrow> [] | Some c \<Rightarrow> c) = Inr [] \<longrightarrow>
      execute w p = Some (failure ''No valid data rows found in CSV'', []))"
proof -
  have "round_half_up 0 = 0" unfolding round_half_up_def by linarith
  then have a: "calculateSummary [] =
     \<lparr>totalRows = 0, successfulRequests = 0, failedRequests = 0, successRate = NaN,
      totalProcessingTime = Num 0, averageProcessingTime = NaN, averageResponseTime = NaN\<rparr>"
    by (simp add: calculateSummary_def num_of_nat_def to_double_0)
  have b: "(p_operation p = None \<or> p_operation p = Some Submit) \<and>
    parseCsvData (case p_csvData p of None \<Rightarrow> [] | Some c \<Rightarrow> c) = Inr [] \<longrightarrow>
      execute w p = Some (failure ''No valid data rows found in CSV'', [])"
    by (auto simp add: execute_def Let_def)
  from a b show ?thesis by blast
qed

text \<open>A CSV text that parses to no rows, and the parameters of a job on a CSV text.\<close>

definition no_rows_csv :: string where
  "no_rows_csv = ''a,b'' @ [CHR 0x0A] @ '',''"

definition submit_parameters :: "string \<Rightarrow> bool \<Rightarrow> FormBulkSubmitParameters" where
  "submit_parameters csv dry =
     \<lparr>p_operation = Some Submit, p_siteId = ''100'', p_elqFormName = ''X'',
      p_csvData = Some csv, p_requestTimeout = None, p_delayBetweenRequests = None,
      p_validateOnly = Some dry, p_maxConcurrentRequests = None, p_exampleType = None\<rparr>"

theorem empty_results_guarded_witness:
  "p_operation (submit_parameters no_rows_csv False) = Some Submit \<and>
   parseCsvData no_rows_csv = Inr [] \<and>
   execute (fixed_world None 0 []) (submit_parameters no_rows_csv False) =
     Some (failure ''No valid data rows found in CSV'', [])"
proof -
  have a: "p_operation (submit_parameters no_rows_csv False) = Some Submit"
    by (simp add: submit_parameters_def)
  have b: "parseCsvData no_rows_csv = Inr []" by code_simp
  have c: "p_csvData (submit_parameters no_rows_csv False) = Some no_rows_csv"
    by (simp add: submit_parameters_def)
  from empty_results_guarded [of "submit_parameters no_rows_csv False" "fixed_world None 0 []"] a b c
  show ?thesis by simp
qed

section \<open>Properties of the orchestrator\<close>

text \<open>
  Names for the statements below: the row that \<^verbatim>\<open>processRow\<close> returns for the row at index
  \<open>k\<close> (\<open>None\<close> when it never returns), the request it sends, the condition that every
  promise of every batch settles (\<^verbatim>\<open>processRow\<close> returns for every row, and each position
  of each batch occurs in the order given for that batch), and the part of the log that
  belongs to the batch starting at \<open>s\<close>.
\<close>

definition outcome_of ::
  "world \<Rightarrow> row list \<Rightarrow> string \<Rightarrow> string \<Rightarrow> int \<Rightarrow> nat \<Rightarrow> ProcessedRow option" where
  "outcome_of w rows site form timeout k =
     snd (processRow w (rows ! k) site form (k + 1) timeout)"

definition fetch_of :: "row list \<Rightarrow> string \<Rightarrow> string \<Rightarrow> nat \<Rightarrow> event" where
  "fetch_of rows site form k = Fetch (row_request site form (rows ! k) (k + 1))"

definition every_promise_settles ::
  "world \<Rightarrow> row list \<Rightarrow> string \<Rightarrow> string \<Rightarrow> options \<Rightarrow> bool" where
  "every_promise_settles w rows site form opts =
     (list_all (\<lambda>k. outcome_of w rows site form (requestTimeout opts) k \<noteq> None)
        [0..<length rows] \<and>
      list_all (\<lambda>s. list_all (\<lambda>k. k \<in> set (completion w s))
                      [0..<min (nat (maxConcurrentRequests opts)) (length rows - s)])
        [0..<length rows])"

definition batch_trace :: "row list \<Rightarrow> string \<Rightarrow> string \<Rightarrow> int \<Rightarrow> nat \<Rightarrow> nat \<Rightarrow> event list" where
  "batch_trace rows site form d m s =
     map (fetch_of rows site form) [s..<min (s + m) (length rows)] @
     (if d > 0 \<and> s + m < length rows then [Delay d] else [])"

lemma batch_shape:
  "map (\<lambda>(row, batchIndex). (row, i + batchIndex))
       (zip (take m (drop i rows)) [0..<length (take m (drop i rows))]) =
   map (\<lambda>k. (rows ! k, k)) [i..<min (i + m) (length rows)]"
proof (rule nth_equalityI)
  show "length (map (\<lambda>(row, batchIndex). (row, i + batchIndex))
          (zip (take m (drop i rows)) [0..<length (take m (drop i rows))])) =
        length (map (\<lambda>k. (rows ! k, k)) [i..<min (i + m) (length rows)])"
    by simp
next
  fix b
  assume "b < length (map (\<lambda>(row, batchIndex). (row, i + batchIndex))
          (zip (take m (drop i rows)) [0..<length (take m (drop i rows))]))"
  then have b: "b < m" "i + b < length rows" by auto
  then have "b < min (i + m) (length rows) - i" by simp
  with b show "map (\<lambda>(row, batchIndex). (row, i + batchIndex))
          (zip (take m (drop i rows)) [0..<length (take m (drop i rows))]) ! b =
        map (\<lambda>k. (rows ! k, k)) [i..<min (i + m) (length rows)] ! b"
    by simp
qed

lemma those_map_Some: "those (map Some xs) = Some xs"
  by (induction xs) simp_all

lemma fill_slots:
  "length slots = length ps \<Longrightarrow>
   fold (\<lambda>k slots. if k < length slots then slots[k := ps ! k] else slots) order slots =
     map (\<lambda>k. if k \<in> set order then ps ! k else slots ! k) [0..<length ps]"
proof (induction order arbitrary: slots)
  case Nil
  then show ?case using map_nth [of slots] by simp
next
  case (Cons a order)
  let ?s = "if a < length slots then slots[a := ps ! a] else slots"
  have len: "length ?s = length ps" using Cons.prems by simp
  have "fold (\<lambda>k slots. if k < length slots then slots[k := ps ! k] else slots)
          (a # order) slots =
        map (\<lambda>k. if k \<in> set order then ps ! k else ?s ! k) [0..<length ps]"
    using Cons.IH [OF len] by simp
  also have "\<dots> = map (\<lambda>k. if k \<in> set (a # order) then ps ! k else slots ! k)
                     [0..<length ps]"
    using Cons.prems by (auto simp add: nth_list_update)
  finally show ?case .
qed

lemma allSettled_all:
  assumes "\<forall>k<length ps. k \<in> set order"
  shows "allSettled (map Some ps) order = Some ps"
proof -
  have "fold (\<lambda>k slots. if k < length slots then slots[k := map Some ps ! k] else slots) order
          (replicate (length (map Some ps)) None) =
        map (\<lambda>k. map Some ps ! k) [0..<length (map Some ps)]"
    using assms by (subst fill_slots) auto
  also have "\<dots> = map Some ps"
    by (rule nth_equalityI) simp_all
  finally show ?thesis by (simp add: allSettled_def those_map_Some)
qed

lemma array_set_append: "array_set xs (length xs) v = xs @ [Some v]"
  by (simp add: array_set_def)

lemma store_in_order:
  assumes "length res = i"
  shows "l \<le> length vs \<Longrightarrow>
     fold (\<lambda>b res. array_set res (i + b) (vs ! b)) [0..<l] res =
       res @ map (\<lambda>b. Some (vs ! b)) [0..<l]"
proof (induction l)
  case 0
  then show ?case by simp
next
  case (Suc l)
  then have "fold (\<lambda>b res. array_set res (i + b) (vs ! b)) [0..<Suc l] res =
        array_set (res @ map (\<lambda>b. Some (vs ! b)) [0..<l]) (i + l) (vs ! l)"
    by simp
  also have "\<dots> = (res @ map (\<lambda>b. Some (vs ! b)) [0..<l]) @ [Some (vs ! l)]"
    using assms array_set_append [of "res @ map (\<lambda>b. Some (vs ! b)) [0..<l]" "vs ! l"]
    by simp
  finally show ?case by simp
qed

lemma zip_indices: "zip xs [0..<length xs] = map (\<lambda>b. (xs ! b, b)) [0..<length xs]"
  by (rule nth_equalityI) simp_all

lemma processBatch_closed:
  assumes "i < j" and "j \<le> length rows" and "length res = i"
    and "\<forall>k<j - i. k \<in> set (completion w i)"
    and "\<forall>k<j. outcome_of w rows site form timeout k \<noteq> None"
  shows "processBatch w site form timeout (map (\<lambda>k. (rows ! k, k)) [i..<j]) res =
     Some (res @ map (outcome_of w rows site form timeout) [i..<j],
           map (fetch_of rows site form) [i..<j])"
proof -
  let ?batch = "map (\<lambda>k. (rows ! k, k)) [i..<j]"
  let ?vs = "map (\<lambda>k. the (outcome_of w rows site form timeout k)) [i..<j]"
  let ?ps = "map Fulfilled ?vs"
  have returned: "\<And>k. k < j \<Longrightarrow>
      outcome_of w rows site form timeout k = Some (the (outcome_of w rows site form timeout k))"
    using assms(5) by simp
  have first: "(case ?batch of [] \<Rightarrow> [] | (_, first) # _ \<Rightarrow> completion w first) = completion w i"
    using assms(1) by (simp add: upt_conv_Cons)
  have "map (\<lambda>call. map_option Fulfilled (snd call))
          (map (\<lambda>(row, index). processRow w row site form (index + 1) timeout) ?batch) =
        map (\<lambda>k. map_option Fulfilled (outcome_of w rows site form timeout k)) [i..<j]"
    by (simp add: outcome_of_def comp_def)
  also have "\<dots> = map Some ?ps"
  proof (rule nth_equalityI)
    show "length (map (\<lambda>k. map_option Fulfilled (outcome_of w rows site form timeout k)) [i..<j]) =
          length (map Some ?ps)"
      by simp
  next
    fix b
    assume "b < length (map (\<lambda>k. map_option Fulfilled (outcome_of w rows site form timeout k))
                          [i..<j])"
    then have b: "b < j - i" by simp
    then have "i + b < j" by simp
    from returned [OF this] b
    show "map (\<lambda>k. map_option Fulfilled (outcome_of w rows site form timeout k)) [i..<j] ! b =
          map Some ?ps ! b"
      by simp
  qed
  finally have promises: "map (\<lambda>call. map_option Fulfilled (snd call))
          (map (\<lambda>(row, index). processRow w row site form (index + 1) timeout) ?batch) =
        map Some ?ps" .
  have events: "concat (map fst
          (map (\<lambda>(row, index). processRow w row site form (index + 1) timeout) ?batch)) =
        map (fetch_of rows site form) [i..<j]"
    by (induction j) (simp_all add: comp_def processRow_events fetch_of_def)
  have settled: "allSettled (map Some ?ps) (completion w i) = Some ?ps"
    using assms(4) by (intro allSettled_all) simp
  have store: "fold (\<lambda>(result, batchIndex) res.
                          case result of
                            Fulfilled v \<Rightarrow> array_set res (snd (?batch ! batchIndex)) v
                          | Rejected reason \<Rightarrow>
                              array_set res (snd (?batch ! batchIndex))
                                (rejectedRow (snd (?batch ! batchIndex))
                                   (fst (?batch ! batchIndex)) reason))
                     (zip ?ps [0..<length ?ps]) res =
        res @ map (outcome_of w rows site form timeout) [i..<j]"
  proof -
    have "fold (\<lambda>(result, batchIndex) res.
                          case result of
                            Fulfilled v \<Rightarrow> array_set res (snd (?batch ! batchIndex)) v
                          | Rejected reason \<Rightarrow>
                              array_set res (snd (?batch ! batchIndex))
                                (rejectedRow (snd (?batch ! batchIndex))
                                   (fst (?batch ! batchIndex)) reason))
                     (zip ?ps [0..<length ?ps]) res =
          fold (\<lambda>b res. array_set res (i + b) (?vs ! b)) [0..<length ?vs] res"
      unfolding zip_indices fold_map
      by (rule fold_cong) simp_all
    also have "\<dots> = res @ map (\<lambda>b. Some (?vs ! b)) [0..<length ?vs]"
      using store_in_order [OF assms(3), where l = "length ?vs" and vs = ?vs] by simp
    also have "map (\<lambda>b. Some (?vs ! b)) [0..<length ?vs] =
               map (outcome_of w rows site form timeout) [i..<j]"
    proof (rule nth_equalityI)
      show "length (map (\<lambda>b. Some (?vs ! b)) [0..<length ?vs]) =
            length (map (outcome_of w rows site form timeout) [i..<j])"
        by simp
    next
      fix b
      assume "b < length (map (\<lambda>b. Some (?vs ! b)) [0..<length ?vs])"
      then have b: "b < j - i" by simp
      then have "i + b < j" by simp
      from returned [OF this] b
      show "map (\<lambda>b. Some (?vs ! b)) [0..<length ?vs] ! b =
            map (outcome_of w rows site form timeout) [i..<j] ! b"
        by simp
    qed
    finally show ?thesis .
  qed
  show ?thesis
    unfolding processBatch_def Let_def promises events first settled option.case store
    by (rule refl)
qed

text \<open>The indices at which the batches start: \<open>0\<close>, \<open>m\<close>, \<open>2m\<close>, ... below \<open>n\<close>.\<close>

definition batch_starts :: "nat \<Rightarrow> nat \<Rightarrow> nat list" where
  "batch_starts n m = map (\<lambda>b. b * m) [0..<(n + m - 1) div m]"

lemma every_promise_settlesD:
  assumes "every_promise_settles w rows site form opts" and "s < length rows"
    and "k < min (nat (maxConcurrentRequests opts)) (length rows - s)"
  shows "k \<in> set (completion w s)"
  using assms unfolding every_promise_settles_def list_all_iff by auto

lemma every_promise_returns:
  assumes "every_promise_settles w rows site form opts" and "k < length rows"
  shows "outcome_of w rows site form (requestTimeout opts) k \<noteq> None"
  using assms unfolding every_promise_settles_def list_all_iff by auto

lemma batch_count_step:
  assumes "i < n" and "0 < m"
  shows "(n - i + m - 1) div m = Suc ((n - (i + m) + m - 1) div m)"
proof -
  have e: "n - i + m - 1 = (n - i - 1) + m" using assms by arith
  have "m \<noteq> 0" using assms by simp
  from div_add_self2 [OF this, of "n - i - 1"]
  have "(n - i + m - 1) div m = Suc ((n - i - 1) div m)" unfolding e by simp
  also have "(n - i - 1) div m = (n - (i + m) + m - 1) div m"
  proof (cases "i + m \<le> n")
    case True
    then have "n - (i + m) + m - 1 = n - i - 1" using assms by arith
    then show ?thesis by (simp only:)
  next
    case False
    then have "n - (i + m) + m - 1 = m - 1" and "n - i - 1 < m" and "m - 1 < m"
      using assms by arith+
    then show ?thesis by (simp only: div_less)
  qed
  finally show ?thesis .
qed

lemma batch_loop_closed:
  fixes opts :: options and rows :: "row list"
  defines "m \<equiv> nat (maxConcurrentRequests opts)"
  assumes m: "0 < m"
    and sched: "every_promise_settles w rows site form opts"
  shows "length res = min i (length rows) \<Longrightarrow>
     batch_loop w rows site form opts i res tr =
       Some (res @ map (outcome_of w rows site form (requestTimeout opts))
                     [i..<length rows],
             tr @ concat (map (batch_trace rows site form (delayBetweenRequests opts) m)
                            (map (\<lambda>b. i + b * m) [0..<(length rows - i + m - 1) div m])))"
proof (induction "length rows - i" arbitrary: i res tr rule: less_induct)
  case less
  let ?n = "length rows"
  let ?out = "outcome_of w rows site form (requestTimeout opts)"
  let ?bt = "batch_trace rows site form (delayBetweenRequests opts) m"
  show ?case
  proof (cases "i < ?n")
    case False
    then have "(?n - i + m - 1) div m = 0" using m by simp
    with False show ?thesis by (subst batch_loop.simps) simp
  next
    case True
    let ?j = "min (i + m) ?n"
    let ?pause = "if delayBetweenRequests opts > 0 \<and> i + m < ?n
                  then [Delay (delayBetweenRequests opts)] else []"
    have ij: "i < ?j" "?j \<le> ?n" using True m by simp_all
    have len: "length res = i" using less.prems True by simp
    have settle: "\<forall>k<?j - i. k \<in> set (completion w i)"
    proof (intro allI impI)
      fix k assume "k < ?j - i"
      then have "k < min (nat (maxConcurrentRequests opts)) (?n - i)"
        unfolding m_def by arith
      with sched True show "k \<in> set (completion w i)" by (rule every_promise_settlesD)
    qed
    have ret: "\<forall>k<?j. ?out k \<noteq> None"
      using every_promise_returns [OF sched] ij by simp
    have batch: "processBatch w site form (requestTimeout opts)
                   (map (\<lambda>k. (rows ! k, k)) [i..<?j]) res =
                 Some (res @ map ?out [i..<?j], map (fetch_of rows site form) [i..<?j])"
      using ij len settle ret by (rule processBatch_closed)
    have step: "batch_loop w rows site form opts i res tr =
                batch_loop w rows site form opts (i + m) (res @ map ?out [i..<?j])
                  (tr @ map (fetch_of rows site form) [i..<?j] @ ?pause)"
      apply (subst batch_loop.simps)
      unfolding Let_def m_def [symmetric] batch_shape batch
      using True by simp
    have len': "length (res @ map ?out [i..<?j]) = min (i + m) ?n"
      using len ij by simp
    have less': "?n - (i + m) < ?n - i" using True m by simp
    have rec: "batch_loop w rows site form opts (i + m) (res @ map ?out [i..<?j])
                 (tr @ map (fetch_of rows site form) [i..<?j] @ ?pause) =
               Some ((res @ map ?out [i..<?j]) @ map ?out [i + m..<?n],
                     (tr @ map (fetch_of rows site form) [i..<?j] @ ?pause) @
                     concat (map ?bt (map (\<lambda>b. (i + m) + b * m)
                                        [0..<(?n - (i + m) + m - 1) div m])))"
      using less.hyps [OF less' len'] .
    have parts: "map ?out [i..<?j] @ map ?out [i + m..<?n] = map ?out [i..<?n]"
    proof (cases "i + m \<le> ?n")
      case True
      then have "[i..<?n] = [i..<i + m] @ [i + m..<?n]"
        using upt_add_eq_append [of i "i + m" "?n - (i + m)"] by simp
      with True show ?thesis by (simp add: min_def)
    next
      case False
      then show ?thesis by (simp add: min_def)
    qed
    have starts: "map (\<lambda>b. i + b * m) [0..<(?n - i + m - 1) div m] =
                  i # map (\<lambda>b. (i + m) + b * m) [0..<(?n - (i + m) + m - 1) div m]"
      unfolding batch_count_step [OF True m] map_upt_Suc by (simp add: add.assoc add.commute)
    have head: "?bt i = map (fetch_of rows site form) [i..<?j] @ ?pause"
      by (simp add: batch_trace_def)
    show ?thesis
      unfolding step rec starts using parts head by simp
  qed
qed

lemma processBulkSubmissions_closed:
  assumes "1 \<le> maxConcurrentRequests opts" and "maxConcurrentRequests opts \<le> 4294967295"
    and "every_promise_settles w rows site form opts"
  shows "processBulkSubmissions w rows site form opts =
     Some (Inr (map (outcome_of w rows site form (requestTimeout opts))
                  [0..<length rows],
                concat (map (batch_trace rows site form (delayBetweenRequests opts)
                               (nat (maxConcurrentRequests opts)))
                          (batch_starts (length rows) (nat (maxConcurrentRequests opts))))))"
proof -
  have m: "0 < nat (maxConcurrentRequests opts)" using assms(1) by simp
  have "batch_loop w rows site form opts 0 [] [] =
     Some ([] @ map (outcome_of w rows site form (requestTimeout opts))
                  [0..<length rows],
           [] @ concat (map (batch_trace rows site form (delayBetweenRequests opts)
                               (nat (maxConcurrentRequests opts)))
                          (map (\<lambda>b. 0 + b * nat (maxConcurrentRequests opts))
                             [0..<(length rows - 0 + nat (maxConcurrentRequests opts) - 1)
                                   div nat (maxConcurrentRequests opts)])))"
    using m assms(3) by (rule batch_loop_closed) simp
  then show ?thesis
    using assms(1,2) by (simp add: processBulkSubmissions_def batch_starts_def)
qed

lemma outcome_of_transport:
  "transport w' = transport w \<Longrightarrow>
   outcome_of w' rows site form timeout k = outcome_of w rows site form timeout k"
  by (simp add: outcome_of_def processRow_def)

lemma outcome_of_rowNumber_data:
  "outcome_of w rows site form timeout k = Some r \<Longrightarrow>
   rowNumber r = k + 1 \<and> data r = Some (rows ! k)"
  unfolding outcome_of_def by (rule processRow_rowNumber_data)

text \<open>
  C1. For valid input (a batch size of at least one that is a legal array length) and a
  run in which every promise settles, the orchestrator returns one outcome per input row
  in input order: the result has the length of the input, the outcome at index \<open>i\<close> has
  row number \<open>i + 1\<close> and the data of input row \<open>i\<close>, and any other order of completion,
  with the same network, gives the same results.
\<close>

theorem results_in_input_order:
  assumes "1 \<le> maxConcurrentRequests opts" and "maxConcurrentRequests opts \<le> 4294967295"
    and "every_promise_settles w rows site form opts"
  shows "\<exists>results trace.
     processBulkSubmissions w rows site form opts = Some (Inr (results, trace)) \<and>
     length results = length rows \<and>
     (\<forall>i<length rows. \<exists>r. results ! i = Some r \<and> rowNumber r = i + 1 \<and>
                          data r = Some (rows ! i)) \<and>
     (\<forall>w'. transport w' = transport w \<and> every_promise_settles w' rows site form opts \<longrightarrow>
           (\<exists>trace'. processBulkSubmissions w' rows site form opts =
                        Some (Inr (results, trace'))))"
proof -
  let ?results = "map (outcome_of w rows site form (requestTimeout opts)) [0..<length rows]"
  have run: "\<exists>trace. processBulkSubmissions w rows site form opts = Some (Inr (?results, trace))"
    using processBulkSubmissions_closed [OF assms] by simp
  have len: "length ?results = length rows" by simp
  have each: "\<forall>i<length rows. \<exists>r. ?results ! i = Some r \<and> rowNumber r = i + 1 \<and>
                data r = Some (rows ! i)"
  proof (intro allI impI)
    fix i
    assume i: "i < length rows"
    from every_promise_returns [OF assms(3) i]
    obtain r where r: "outcome_of w rows site form (requestTimeout opts) i = Some r" by auto
    from outcome_of_rowNumber_data [OF r] r i
    show "\<exists>r. ?results ! i = Some r \<and> rowNumber r = i + 1 \<and> data r = Some (rows ! i)"
      by simp
  qed
  have indep: "\<forall>w'. transport w' = transport w \<and> every_promise_settles w' rows site form opts \<longrightarrow>
           (\<exists>trace'. processBulkSubmissions w' rows site form opts =
                        Some (Inr (?results, trace')))"
  proof (intro allI impI)
    fix w'
    assume a: "transport w' = transport w \<and> every_promise_settles w' rows site form opts"
    then have "\<And>k. outcome_of w' rows site form (requestTimeout opts) k =
                   outcome_of w rows site form (requestTimeout opts) k"
      by (intro outcome_of_transport) simp
    then have "map (outcome_of w' rows site form (requestTimeout opts)) [0..<length rows] =
               ?results"
      by simp
    with processBulkSubmissions_closed [OF assms(1,2), of w' rows site form] a
    show "\<exists>trace'. processBulkSubmissions w' rows site form opts =
                        Some (Inr (?results, trace'))"
      by simp
  qed
  from run len each indep show ?thesis by blast
qed

text \<open>Three rows, options with batches of two, and a world where every request is answered
  with status 200; its argument is the order in which the promises of a batch settle.\<close>

definition three_rows :: "row list" where
  "three_rows = [[(''a'', ''1'')], [(''a'', ''2'')], [(''a'', ''3'')]]"

definition two_at_a_time :: options where
  "two_at_a_time = \<lparr>requestTimeout = 10, delayBetweenRequests = 100, maxConcurrentRequests = 2\<rparr>"

definition ok_world :: "nat list \<Rightarrow> world" where
  "ok_world order = fixed_world (Some (Responds 200 (BodyText ''ok''))) 40 order"

lemma ok_world_returns:
  "outcome_of (ok_world order) rows site form timeout k \<noteq> None"
  by (simp add: outcome_of_def processRow_cases ok_world_def fixed_world_def
      fetch_with_abort_def Let_def)

lemma ok_world_settles:
  "every_promise_settles (ok_world [1, 0]) three_rows ''100'' ''X'' two_at_a_time"
  by (simp add: every_promise_settles_def ok_world_returns list_all_iff)
    (auto simp add: three_rows_def two_at_a_time_def ok_world_def fixed_world_def)

theorem results_in_input_order_witness:
  "1 \<le> maxConcurrentRequests two_at_a_time \<and>
   maxConcurrentRequests two_at_a_time \<le> 4294967295 \<and>
   every_promise_settles (ok_world [1, 0]) three_rows ''100'' ''X'' two_at_a_time \<and>
   (\<exists>results trace.
      processBulkSubmissions (ok_world [1, 0]) three_rows ''100'' ''X'' two_at_a_time =
        Some (Inr (results, trace)) \<and>
      length results = 3 \<and>
      (\<exists>r. results ! 2 = Some r \<and> rowNumber r = 3 \<and> data r = Some [(''a'', ''3'')]))"
proof -
  have a: "1 \<le> maxConcurrentRequests two_at_a_time"
    and b: "maxConcurrentRequests two_at_a_time \<le> 4294967295"
    by (simp_all add: two_at_a_time_def)
  have l: "length three_rows = 3" and r: "three_rows ! 2 = [(''a'', ''3'')]"
    by (simp_all add: three_rows_def)
  have m: "nat (maxConcurrentRequests two_at_a_time) = 2" by (simp add: two_at_a_time_def)
  have c: "every_promise_settles (ok_world [1, 0]) three_rows ''100'' ''X'' two_at_a_time"
    by (rule ok_world_settles)
  from results_in_input_order [OF a b c]
  obtain results trace where
    run: "processBulkSubmissions (ok_world [1, 0]) three_rows ''100'' ''X'' two_at_a_time =
        Some (Inr (results, trace))"
    and len: "length results = length three_rows"
    and each: "\<forall>i<length three_rows. \<exists>r. results ! i = Some r \<and> rowNumber r = i + 1 \<and>
                          data r = Some (three_rows ! i)"
    by blast
  have "2 < length three_rows" using l by simp
  with each obtain r0 where
    "results ! 2 = Some r0 \<and> rowNumber r0 = 2 + 1 \<and> data r0 = Some (three_rows ! 2)"
    by blast
  then have last: "\<exists>r. results ! 2 = Some r \<and> rowNumber r = 3 \<and> data r = Some [(''a'', ''3'')]"
    using r by simp
  from len l have len3: "length results = 3" by simp
  from run len3 last have
    "\<exists>results trace.
      processBulkSubmissions (ok_world [1, 0]) three_rows ''100'' ''X'' two_at_a_time =
        Some (Inr (results, trace)) \<and>
      length results = 3 \<and>
      (\<exists>r. results ! 2 = Some r \<and> rowNumber r = 3 \<and> data r = Some [(''a'', ''3'')])"
    by blast
  with a b c show ?thesis by (intro conjI)
qed

lemma two_rows_trace:
  "concat (map (batch_trace (take 2 three_rows) ''100'' ''X'' 100 2) (batch_starts 2 2)) =
     [fetch_of three_rows ''100'' ''X'' 0, fetch_of three_rows ''100'' ''X'' 1]"
  by code_simp

text \<open>
  C4, as stated, fails: two rows in one batch, with a delay of 100 ms configured, are
  requested one right after the other; no delay step precedes the second row.
\<close>

theorem intra_batch_delay_counterexample:
  "map_option (map_sum id snd)
     (processBulkSubmissions (ok_world [0, 1]) (take 2 three_rows) ''100'' ''X'' two_at_a_time) =
   Some (Inr [fetch_of three_rows ''100'' ''X'' 0, fetch_of three_rows ''100'' ''X'' 1])"
proof -
  have a: "1 \<le> maxConcurrentRequests two_at_a_time"
    and b: "maxConcurrentRequests two_at_a_time \<le> 4294967295"
    by (simp_all add: two_at_a_time_def)
  have l: "length (take 2 three_rows) = 2" by (simp add: three_rows_def)
  have m: "nat (maxConcurrentRequests two_at_a_time) = 2" by (simp add: two_at_a_time_def)
  have d: "delayBetweenRequests two_at_a_time = 100" by (simp add: two_at_a_time_def)
  have c: "every_promise_settles (ok_world [0, 1]) (take 2 three_rows) ''100'' ''X''
             two_at_a_time"
    by (simp add: every_promise_settles_def ok_world_returns list_all_iff)
      (auto simp add: three_rows_def two_at_a_time_def ok_world_def fixed_world_def)
  show ?thesis
    unfolding processBulkSubmissions_closed [OF a b c] l m d two_rows_trace
    by simp
qed

text \<open>
  C4, amended. The rows of a batch are requested back to back, with no delay between
  them. The only delay is the pause of \<^verbatim>\<open>delayBetweenRequests\<close> ms after a batch, taken when
  that value is positive and more rows remain: the log of a run is, batch by batch, the
  requests of the batch followed by that pause.
\<close>

theorem delay_only_between_batches:
  assumes "1 \<le> maxConcurrentRequests opts" and "maxConcurrentRequests opts \<le> 4294967295"
    and "every_promise_settles w rows site form opts"
  shows "\<exists>results.
     processBulkSubmissions w rows site form opts =
       Some (Inr (results,
          concat (map (\<lambda>s. map (fetch_of rows site form)
                              [s..<min (s + nat (maxConcurrentRequests opts)) (length rows)] @
                            (if delayBetweenRequests opts > 0 \<and>
                                s + nat (maxConcurrentRequests opts) < length rows
                             then [Delay (delayBetweenRequests opts)] else []))
                    (batch_starts (length rows) (nat (maxConcurrentRequests opts))))))"
proof -
  have "batch_trace rows site form (delayBetweenRequests opts) (nat (maxConcurrentRequests opts)) =
        (\<lambda>s. map (fetch_of rows site form)
                              [s..<min (s + nat (maxConcurrentRequests opts)) (length rows)] @
                            (if delayBetweenRequests opts > 0 \<and>
                                s + nat (maxConcurrentRequests opts) < length rows
                             then [Delay (delayBetweenRequests opts)] else []))"
    by (rule ext) (simp add: batch_trace_def)
  with processBulkSubmissions_closed [OF assms] show ?thesis by simp
qed

theorem delay_only_between_batches_witness:
  "1 \<le> maxConcurrentRequests two_at_a_time \<and>
   maxConcurrentRequests two_at_a_time \<le> 4294967295 \<and>
   every_promise_settles (ok_world [1, 0]) three_rows ''100'' ''X'' two_at_a_time \<and>
   (\<exists>results.
      processBulkSubmissions (ok_world [1, 0]) three_rows ''100'' ''X'' two_at_a_time =
        Some (Inr (results,
          [fetch_of three_rows ''100'' ''X'' 0, fetch_of three_rows ''100'' ''X'' 1, Delay 100,
           fetch_of three_rows ''100'' ''X'' 2])))"
proof -
  have a: "1 \<le> maxConcurrentRequests two_at_a_time"
    and b: "maxConcurrentRequests two_at_a_time \<le> 4294967295"
    by (simp_all add: two_at_a_time_def)
  have l: "length three_rows = 3" by (simp add: three_rows_def)
  have m: "nat (maxConcurrentRequests two_at_a_time) = 2" by (simp add: two_at_a_time_def)
  have d: "delayBetweenRequests two_at_a_time = 100" by (simp add: two_at_a_time_def)
  have c: "every_promise_settles (ok_world [1, 0]) three_rows ''100'' ''X'' two_at_a_time"
    by (rule ok_world_settles)
  have t: "concat (map (\<lambda>s. map (fetch_of three_rows ''100'' ''X'') [s..<min (s + 2) 3] @
                            (if (100::int) > 0 \<and> s + 2 < 3 then [Delay 100] else []))
                    (batch_starts 3 2)) =
           [fetch_of three_rows ''100'' ''X'' 0, fetch_of three_rows ''100'' ''X'' 1, Delay 100,
            fetch_of three_rows ''100'' ''X'' 2]"
    by code_simp
  from delay_only_between_batches [OF a b c]
  have "\<exists>results.
      processBulkSubmissions (ok_world [1, 0]) three_rows ''100'' ''X'' two_at_a_time =
        Some (Inr (results,
          [fetch_of three_rows ''100'' ''X'' 0, fetch_of three_rows ''100'' ''X'' 1, Delay 100,
           fetch_of three_rows ''100'' ''X'' 2]))"
    unfolding l m d t .
  with a b c show ?thesis by (intro conjI)
qed

section \<open>Properties of the dry run\<close>

lemma sample_indices:
  "map (\<lambda>(row, index). f row (index + 1)) (zip (take 3 rows) [0..<length (take 3 rows)]) =
   map (\<lambda>i. f (rows ! i) (i + 1)) [0..<min 3 (length rows)]"
  by (rule nth_equalityI) (simp_all add: min.commute)

text \<open>
  C9, amended. For an input that parses to \<open>n \<ge> 1\<close> rows, a run with \<^verbatim>\<open>validateOnly\<close> set
  sends no request (the log is empty) and returns \<open>totalRows = validRows = n\<close> with the
  URLs built for the first \<open>min 3 n\<close> rows, in input order, as samples; with 5 rows there
  are 3 samples.
\<close>

theorem validate_only_samples:
  assumes "p_operation p = None \<or> p_operation p = Some Submit"
    and "p_validateOnly p = Some True"
    and "parseCsvData (case p_csvData p of None \<Rightarrow> [] | Some c \<Rightarrow> c) = Inr rows"
    and "rows \<noteq> []"
  shows "execute w p =
     Some (succeeded
             (Validation (length rows) (length rows)
                (map (\<lambda>i. buildEloquaUrl (p_siteId p) (p_elqFormName p) (rows ! i) (i + 1))
                   [0..<min 3 (length rows)])),
           []) \<and>
     length (map (\<lambda>i. buildEloquaUrl (p_siteId p) (p_elqFormName p) (rows ! i) (i + 1))
               [0..<min 3 (length rows)]) = min 3 (length rows) \<and>
     (length rows = 5 \<longrightarrow>
        length (map (\<lambda>i. buildEloquaUrl (p_siteId p) (p_elqFormName p) (rows ! i) (i + 1))
                  [0..<min 3 (length rows)]) = 3)"
proof -
  have "execute w p =
     Some (succeeded
             (Validation (length rows) (length rows)
                (map (\<lambda>i. buildEloquaUrl (p_siteId p) (p_elqFormName p) (rows ! i) (i + 1))
                   [0..<min 3 (length rows)])),
           [])"
    using assms unfolding execute_def Let_def sample_indices by auto
  then show ?thesis by simp
qed

text \<open>
  C9, as stated, fails at \<open>n = 0\<close>: an input that parses to no rows makes the job fail
  before the dry run is reached; no counts and no samples are returned.
\<close>

theorem validate_only_counterexample:
  "parseCsvData no_rows_csv = Inr [] \<and>
   execute (ok_world []) (submit_parameters no_rows_csv True) =
     Some (failure ''No valid data rows found in CSV'', [])"
proof -
  have b: "parseCsvData no_rows_csv = Inr []" by code_simp
  then show ?thesis by (simp add: execute_def submit_parameters_def)
qed

text \<open>A CSV text with five rows.\<close>

definition five_rows_csv :: string where
  "five_rows_csv = ''a'' @ [CHR 0x0A] @ ''1'' @ [CHR 0x0A] @ ''2'' @ [CHR 0x0A] @ ''3'' @
     [CHR 0x0A] @ ''4'' @ [CHR 0x0A] @ ''5''"

theorem validate_only_samples_witness:
  "p_operation (submit_parameters five_rows_csv True) = Some Submit \<and>
   p_validateOnly (submit_parameters five_rows_csv True) = Some True \<and>
   parseCsvData five_rows_csv =
     Inr [[(''a'', ''1'')], [(''a'', ''2'')], [(''a'', ''3'')], [(''a'', ''4'')], [(''a'', ''5'')]] \<and>
   execute (ok_world []) (submit_parameters five_rows_csv True) =
     Some (succeeded
             (Validation 5 5
                [''https://s100.t.eloqua.com/e/f2?elqFormName=X&elqSiteID=100&a=1'',
                 ''https://s100.t.eloqua.com/e/f2?elqFormName=X&elqSiteID=100&a=2'',
                 ''https://s100.t.eloqua.com/e/f2?elqFormName=X&elqSiteID=100&a=3'']),
           [])"
proof -
  let ?p = "submit_parameters five_rows_csv True"
  let ?rows = "[[(''a'', ''1'')], [(''a'', ''2'')], [(''a'', ''3'')], [(''a'', ''4'')],
                [(''a'', ''5'')]] :: row list"
  have a: "p_operation ?p = None \<or> p_operation ?p = Some Submit"
    and b: "p_validateOnly ?p = Some True"
    by (simp_all add: submit_parameters_def)
  have parsed: "parseCsvData five_rows_csv = Inr ?rows" by code_simp
  then have c: "parseCsvData (case p_csvData ?p of None \<Rightarrow> [] | Some c \<Rightarrow> c) = Inr ?rows"
    by (simp add: submit_parameters_def)
  have d: "?rows \<noteq> []" by simp
  have urls: "map (\<lambda>i. buildEloquaUrl (p_siteId ?p) (p_elqFormName ?p) (?rows ! i) (i + 1))
                [0..<min 3 5] =
       [''https://s100.t.eloqua.com/e/f2?elqFormName=X&elqSiteID=100&a=1'',
        ''https://s100.t.eloqua.com/e/f2?elqFormName=X&elqSiteID=100&a=2'',
        ''https://s100.t.eloqua.com/e/f2?elqFormName=X&elqSiteID=100&a=3'']"
    by code_simp
  have len: "length ?rows = 5" by simp
  from validate_only_samples [OF a b c d, of "ok_world []", THEN conjunct1]
  have "execute (ok_world []) ?p =
     Some (succeeded
             (Validation 5 5
                [''https://s100.t.eloqua.com/e/f2?elqFormName=X&elqSiteID=100&a=1'',
                 ''https://s100.t.eloqua.com/e/f2?elqFormName=X&elqSiteID=100&a=2'',
                 ''https://s100.t.eloqua.com/e/f2?elqFormName=X&elqSiteID=100&a=3'']),
           [])"
    unfolding len urls .
  with parsed show ?thesis by (simp add: submit_parameters_def)
qed

end
